(* ===== verification/Prelude.thy ===== *)
theory Prelude
  imports Main "HOL-Library.Sublist" "HOL-Library.AList"
begin

text \<open>
  Shared vocabulary of the development: the Python exceptions the solutions can
  raise, as values of one datatype; the few Python primitives every component uses
  (list indexing with negative indices, dictionary lookup, \<open>setdefault\<close> and
  \<open>get\<close>, integer \<open>%\<close>, \<open>str.split()\<close> and \<open>int(str)\<close>), written as
  executable HOL functions that return \<open>py_error + 'a\<close>; and the lemmas on them
  that the component proofs use through the \<open>py_simps\<close> collection.
\<close>

named_theorems py_simps "evaluation rules of the modelled Python primitives"

section \<open>Python exceptions as values\<close>

datatype py_error =
    AssertionError
  | IndexError
  | KeyError
  | TypeError
  | ValueError
  | ZeroDivisionError
  | UnboundLocalError
  | SyntaxError
  | StopIteration
  | OverflowError
  | Unmodelled

text \<open>\<open>Unmodelled\<close> is not a Python exception: it marks an input on which the model
  does not decide what the program does (the one use is an \<open>eval\<close> of a token
  outside the class of tokens the model of Day 8 covers).\<close>

type_synonym 'a py = "py_error + 'a"

section \<open>Lists: Python indexing\<close>

text \<open>\<open>xs[i]\<close>: a negative index counts from the end; out of range raises.\<close>

definition py_index :: "'a list \<Rightarrow> int \<Rightarrow> 'a py" where
  "py_index xs i =
     (let k = (if i < 0 then i + int (length xs) else i)
      in if 0 \<le> k \<and> k < int (length xs) then Inr (xs ! nat k) else Inl IndexError)"

text \<open>\<open>xs[i] = v\<close>: the same index rule as reading.\<close>

definition py_update :: "'a list \<Rightarrow> int \<Rightarrow> 'a \<Rightarrow> 'a list py" where
  "py_update xs i v =
     (let k = (if i < 0 then i + int (length xs) else i)
      in if 0 \<le> k \<and> k < int (length xs) then Inr (xs[nat k := v]) else Inl IndexError)"

text \<open>Slices with step 1: each bound is read like an index (a negative one counts from
  the end) and then clamped to \<open>[0, len]\<close>; \<open>xs[a:b] = ys\<close> replaces the slice by
  \<open>ys\<close>, whatever its length, and inserts at \<open>a\<close> when \<open>b < a\<close>. An omitted
  start is \<open>0\<close>, an omitted stop \<open>len(xs)\<close>.\<close>

definition py_slice_bound :: "int \<Rightarrow> int \<Rightarrow> nat" where
  "py_slice_bound len i = nat (min len (if i < 0 then max 0 (i + len) else i))"

definition py_slice :: "'a list \<Rightarrow> int \<Rightarrow> int \<Rightarrow> 'a list" where
  "py_slice xs a b =
     (let a' = py_slice_bound (int (length xs)) a; b' = py_slice_bound (int (length xs)) b
      in take (b' - a') (drop a' xs))"

definition py_slice_assign :: "'a list \<Rightarrow> int \<Rightarrow> int \<Rightarrow> 'a list \<Rightarrow> 'a list" where
  "py_slice_assign xs a b ys =
     (let a' = py_slice_bound (int (length xs)) a; b' = max a' (py_slice_bound (int (length xs)) b)
      in take a' xs @ ys @ drop b' xs)"

section \<open>Dictionaries\<close>

text \<open>A dictionary is a map; \<open>d[k]\<close> raises \<open>KeyError\<close> on a missing key.\<close>

definition py_lookup :: "('k \<rightharpoonup> 'v) \<Rightarrow> 'k \<Rightarrow> 'v py" where
  "py_lookup d k = (case d k of None \<Rightarrow> Inl KeyError | Some v \<Rightarrow> Inr v)"

definition py_setdefault :: "('k \<rightharpoonup> 'v) \<Rightarrow> 'k \<Rightarrow> 'v \<Rightarrow> ('k \<rightharpoonup> 'v)" where
  "py_setdefault d k v = (case d k of None \<Rightarrow> d(k \<mapsto> v) | Some _ \<Rightarrow> d)"

definition py_get :: "('k \<rightharpoonup> 'v) \<Rightarrow> 'k \<Rightarrow> 'v \<Rightarrow> 'v" where
  "py_get d k v = (case d k of None \<Rightarrow> v | Some w \<Rightarrow> w)"

text \<open>Where the order of a dictionary shows (its \<open>values()\<close>), it is an association
  list with distinct keys in insertion order: assigning an existing key keeps its place
  (\<open>AList.update\<close>), a new key goes last.\<close>

type_synonym ('k, 'v) pydict = "('k \<times> 'v) list"

definition d_lookup :: "('k, 'v) pydict \<Rightarrow> 'k \<Rightarrow> 'v py" where
  "d_lookup d k = (case map_of d k of None \<Rightarrow> Inl KeyError | Some v \<Rightarrow> Inr v)"

definition d_setdefault :: "('k, 'v) pydict \<Rightarrow> 'k \<Rightarrow> 'v \<Rightarrow> ('k, 'v) pydict" where
  "d_setdefault d k v = (case map_of d k of None \<Rightarrow> d @ [(k, v)] | Some _ \<Rightarrow> d)"

definition d_set :: "('k, 'v) pydict \<Rightarrow> 'k \<Rightarrow> 'v \<Rightarrow> ('k, 'v) pydict" where
  "d_set d k v = AList.update k v d"

text \<open>\<open>d.get(k, v)\<close> and \<open>d.pop(k)\<close>, which raises on a missing key.\<close>

definition d_get :: "('k, 'v) pydict \<Rightarrow> 'k \<Rightarrow> 'v \<Rightarrow> 'v" where
  "d_get d k v = (case map_of d k of None \<Rightarrow> v | Some w \<Rightarrow> w)"

definition d_pop :: "('k, 'v) pydict \<Rightarrow> 'k \<Rightarrow> ('k, 'v) pydict py" where
  "d_pop d k = (case map_of d k of None \<Rightarrow> Inl KeyError | Some _ \<Rightarrow> Inr (AList.delete k d))"

text \<open>\<open>max(xs)\<close> on a list of integers; an empty list raises \<open>ValueError\<close>.\<close>

definition py_max :: "int list \<Rightarrow> int py" where
  "py_max xs = (case xs of [] \<Rightarrow> Inl ValueError | x # ys \<Rightarrow> Inr (fold max ys x))"

section \<open>Integers\<close>

text \<open>
  Python's \<open>%\<close> on integers takes the sign of the divisor, as HOL's \<open>mod\<close> on
  \<open>int\<close> does; only the zero divisor differs: Python raises.
\<close>

definition py_mod :: "int \<Rightarrow> int \<Rightarrow> int py" where
  "py_mod a b = (if b = 0 then Inl ZeroDivisionError else Inr (a mod b))"

section \<open>Strings: \<open>str.split()\<close> and \<open>int(str)\<close>\<close>

text \<open>
  \<open>str.split()\<close> without argument splits at runs of ASCII whitespace (tab, line
  feed, vertical tab, form feed, carriage return, the separators 28 to 31 and space)
  and drops empty pieces, so it also strips the line.
\<close>

definition is_py_space :: "char \<Rightarrow> bool" where
  "is_py_space c \<longleftrightarrow> (let n = (of_char c :: nat) in (9 \<le> n \<and> n \<le> 13) \<or> (28 \<le> n \<and> n \<le> 32))"

fun split_ws_acc :: "string \<Rightarrow> string \<Rightarrow> string list" where
  "split_ws_acc cur [] = (if cur = [] then [] else [rev cur])"
| "split_ws_acc cur (c # cs) =
     (if is_py_space c
      then (if cur = [] then split_ws_acc [] cs else rev cur # split_ws_acc [] cs)
      else split_ws_acc (c # cur) cs)"

definition split_ws :: "string \<Rightarrow> string list" where
  "split_ws s = split_ws_acc [] s"

text \<open>\<open>s.split(c)\<close> with a separator: every occurrence splits, so that \<open>n\<close>
  separators give \<open>n + 1\<close> pieces, empty ones included.\<close>

fun py_split_acc :: "char \<Rightarrow> string \<Rightarrow> string \<Rightarrow> string list" where
  "py_split_acc c cur [] = [rev cur]"
| "py_split_acc c cur (x # xs) = (if x = c then rev cur # py_split_acc c [] xs else py_split_acc c (x # cur) xs)"

definition py_split :: "char \<Rightarrow> string \<Rightarrow> string list" where
  "py_split c s = py_split_acc c [] s"

text \<open>\<open>str.rstrip()\<close>: whitespace removed at the end.\<close>

definition py_rstrip :: "string \<Rightarrow> string" where
  "py_rstrip s = rev (dropWhile is_py_space (rev s))"

text \<open>\<open>list.index(x)\<close>: the position of the first occurrence, counted from \<open>i\<close>;
  \<open>ValueError\<close> when there is none.\<close>

fun list_index :: "'a list \<Rightarrow> 'a \<Rightarrow> nat \<Rightarrow> int py" where
  "list_index [] x i = Inl ValueError"
| "list_index (y # ys) x i = (if y = x then Inr (int i) else list_index ys x (Suc i))"

text \<open>\<open>str.strip()\<close>: whitespace removed at both ends.\<close>

definition py_strip :: "string \<Rightarrow> string" where
  "py_strip s = rev (dropWhile is_py_space (rev (dropWhile is_py_space s)))"

text \<open>\<open>str.strip(cs)\<close>: the characters of \<open>cs\<close> removed at both ends.\<close>

definition py_strip_chars :: "string \<Rightarrow> string \<Rightarrow> string" where
  "py_strip_chars cs s = rev (dropWhile (\<lambda>c. c \<in> set cs) (rev (dropWhile (\<lambda>c. c \<in> set cs) s)))"

text \<open>
  \<open>int(s)\<close> on a token: an optional sign, then decimal digits, where single
  underscores may separate digits; anything else raises \<open>ValueError\<close>.
\<close>

definition is_digit :: "char \<Rightarrow> bool" where
  "is_digit c \<longleftrightarrow> (48 \<le> (of_char c :: nat) \<and> (of_char c :: nat) \<le> 57)"

definition digit_val :: "char \<Rightarrow> nat" where
  "digit_val c = of_char c - 48"

fun py_digits_acc :: "nat \<Rightarrow> bool \<Rightarrow> string \<Rightarrow> nat option" where
  "py_digits_acc n us [] = (if us then None else Some n)"
| "py_digits_acc n us (c # cs) =
     (if is_digit c then py_digits_acc (10 * n + digit_val c) False cs
      else if c = CHR ''_'' \<and> \<not> us then py_digits_acc n True cs
      else None)"

definition py_digits :: "string \<Rightarrow> nat option" where
  "py_digits s =
     (case s of [] \<Rightarrow> None
      | c # cs \<Rightarrow> if is_digit c then py_digits_acc (digit_val c) False cs else None)"

definition py_int :: "string \<Rightarrow> int py" where
  "py_int s =
     (let (sg, body) =
        (case s of [] \<Rightarrow> (1, [])
         | c # cs \<Rightarrow> if c = CHR ''-'' then (-1, cs)
                    else if c = CHR ''+'' then (1, cs) else (1, s))
      in case py_digits body of None \<Rightarrow> Inl ValueError | Some n \<Rightarrow> Inr (sg * int n))"

text \<open>\<open>str(n)\<close> of a non-negative integer: its decimal digits.\<close>

fun dec_digits :: "nat \<Rightarrow> string" where
  "dec_digits n = (if n < 10 then [''0123456789'' ! n] else dec_digits (n div 10) @ [''0123456789'' ! (n mod 10)])"

declare dec_digits.simps [simp del]

text \<open>Mapping a function that may raise over a list, as a list comprehension does:
  the first exception ends it.\<close>

fun py_map :: "('a \<Rightarrow> 'b py) \<Rightarrow> 'a list \<Rightarrow> 'b list py" where
  "py_map f [] = Inr []"
| "py_map f (x # xs) = (case f x of Inl e \<Rightarrow> Inl e | Inr y \<Rightarrow>
     (case py_map f xs of Inl e \<Rightarrow> Inl e | Inr ys \<Rightarrow> Inr (y # ys)))"

section \<open>Lemmas on the primitives\<close>

lemma py_index_nonneg [py_simps]:
  "0 \<le> i \<Longrightarrow> py_index xs i = (if i < int (length xs) then Inr (xs ! nat i) else Inl IndexError)"
  by (simp add: py_index_def)

lemma py_index_neg [py_simps]:
  "i < 0 \<Longrightarrow> py_index xs i =
     (if 0 \<le> i + int (length xs) then Inr (xs ! nat (i + int (length xs))) else Inl IndexError)"
  by (simp add: py_index_def)

lemma py_index_Inr_in_set:
  "py_index xs i = Inr x \<Longrightarrow> x \<in> set xs"
  by (auto simp: py_index_def Let_def split: if_splits)

lemma py_lookup_Some [py_simps]: "d k = Some v \<Longrightarrow> py_lookup d k = Inr v"
  by (simp add: py_lookup_def)

lemma py_lookup_None [py_simps]: "d k = None \<Longrightarrow> py_lookup d k = Inl KeyError"
  by (simp add: py_lookup_def)

lemma py_lookup_upd_same [py_simps]: "py_lookup (d(k \<mapsto> v)) k = Inr v"
  by (simp add: py_lookup_def)

lemma py_setdefault_has_key: "\<exists>v'. py_setdefault d k v k = Some v'"
  by (simp add: py_setdefault_def split: option.split)

lemma py_setdefault_other [py_simps]: "k' \<noteq> k \<Longrightarrow> py_setdefault d k v k' = d k'"
  by (simp add: py_setdefault_def split: option.split)

lemma py_setdefault_same [py_simps]:
  "py_setdefault d k v k = Some (case d k of None \<Rightarrow> v | Some w \<Rightarrow> w)"
  by (simp add: py_setdefault_def split: option.split)

lemma dom_py_setdefault [py_simps]: "dom (py_setdefault d k v) = insert k (dom d)"
  by (auto simp: py_setdefault_def split: option.splits)

lemma py_mod_nonzero [py_simps]: "b \<noteq> 0 \<Longrightarrow> py_mod a b = Inr (a mod b)"
  by (simp add: py_mod_def)

lemma py_mod_zero [py_simps]: "py_mod a 0 = Inl ZeroDivisionError"
  by (simp add: py_mod_def)

lemma split_ws_acc_no_space:
  "\<forall>x \<in> set cur. \<not> is_py_space x \<Longrightarrow> s' \<in> set (split_ws_acc cur s) \<Longrightarrow>
     s' \<noteq> [] \<and> (\<forall>x \<in> set s'. \<not> is_py_space x)"
proof (induction cur s rule: split_ws_acc.induct)
  case (1 cur)
  then show ?case by (auto split: if_splits)
next
  case (2 cur c cs)
  show ?case
  proof (cases "is_py_space c")
    case True
    note sp = True
    show ?thesis
    proof (cases "cur = []")
      case True
      have "s' \<in> set (split_ws_acc [] cs)" using 2(5) sp True by simp
      then show ?thesis by (rule 2(1)[OF sp True, simplified])
    next
      case False
      have "s' = rev cur \<or> s' \<in> set (split_ws_acc [] cs)" using 2(5) sp False by simp
      then show ?thesis
      proof
        assume "s' = rev cur"
        then show ?thesis using False 2(4) by simp
      next
        assume "s' \<in> set (split_ws_acc [] cs)"
        then show ?thesis by (rule 2(2)[OF sp False, simplified])
      qed
    qed
  next
    case False
    have "s' \<in> set (split_ws_acc (c # cur) cs)" using 2(5) False by simp
    moreover have "\<forall>x \<in> set (c # cur). \<not> is_py_space x" using 2(4) False by simp
    ultimately show ?thesis using 2(3)[OF False] by blast
  qed
qed

lemma split_ws_tokens:
  "s' \<in> set (split_ws s) \<Longrightarrow> s' \<noteq> [] \<and> (\<forall>c \<in> set s'. \<not> is_py_space c)"
  unfolding split_ws_def by (rule split_ws_acc_no_space) simp_all

lemma py_index_Inr_nonneg:
  "0 \<le> i \<Longrightarrow> py_index xs i = Inr x \<Longrightarrow> i < int (length xs) \<and> x = xs ! nat i"
  by (simp add: py_index_def split: if_splits)

lemma suffix_append_same: "suffix xs ys \<Longrightarrow> suffix (xs @ zs) (ys @ zs)"
  by (auto simp: suffix_def)

lemma py_update_nonneg [py_simps]:
  "0 \<le> i \<Longrightarrow> py_update xs i v = (if i < int (length xs) then Inr (xs[nat i := v]) else Inl IndexError)"
  by (simp add: py_update_def)

lemma py_update_length: "py_update xs i v = Inr ys \<Longrightarrow> length ys = length xs"
  by (auto simp: py_update_def Let_def split: if_splits)

lemma map_of_d_setdefault [py_simps]:
  "map_of (d_setdefault d k v) = (case map_of d k of None \<Rightarrow> (map_of d)(k \<mapsto> v) | Some _ \<Rightarrow> map_of d)"
  by (cases "map_of d k") (simp_all add: d_setdefault_def fun_eq_iff map_add_def split: option.split)


lemma map_of_d_set [py_simps]: "map_of (d_set d k v) = (map_of d)(k \<mapsto> v)"
  by (simp add: d_set_def update_conv')

lemma distinct_d_setdefault [py_simps]:
  "distinct (map fst d) \<Longrightarrow> distinct (map fst (d_setdefault d k v))"
  unfolding d_setdefault_def by (simp add: map_of_eq_None_iff split: option.split)


lemma distinct_d_set [py_simps]: "distinct (map fst d) \<Longrightarrow> distinct (map fst (d_set d k v))"
  by (simp add: d_set_def distinct_update)

lemma keys_d_setdefault [py_simps]: "fst ` set (d_setdefault d k v) = insert k (fst ` set d)"
proof (cases "map_of d k")
  case None
  then show ?thesis by (simp add: d_setdefault_def)
next
  case (Some w)
  then have "k \<in> fst ` set d" by (metis fst_conv image_eqI map_of_SomeD)
  with Some show ?thesis by (simp add: d_setdefault_def insert_absorb)
qed


lemma keys_d_set [py_simps]: "fst ` set (d_set d k v) = insert k (fst ` set d)"
  by (simp add: d_set_def dom_update)

lemma d_setdefault_nonempty: "d_setdefault d k v \<noteq> []"
  by (cases d) (auto simp: d_setdefault_def split: option.split)

lemma py_max_Inr: "xs \<noteq> [] \<Longrightarrow> py_max xs = Inr (Max (set xs))"
  by (cases xs) (simp_all add: py_max_def Max.set_eq_fold[symmetric])

lemma d_lookup_Some [py_simps]: "map_of d k = Some v \<Longrightarrow> d_lookup d k = Inr v"
  by (simp add: d_lookup_def)

lemma snd_set_distinct_map_of:
  assumes "distinct (map fst d)" "map_of d = (\<lambda>k. if k \<in> S then Some (f k) else None)"
  shows "snd ` set d = f ` S"
proof
  show "snd ` set d \<subseteq> f ` S"
  proof
    fix x assume "x \<in> snd ` set d"
    then obtain k where "(k, x) \<in> set d" by auto
    then have "map_of d k = Some x" using assms(1) by simp
    then show "x \<in> f ` S" using assms(2) by (auto split: if_splits)
  qed
  show "f ` S \<subseteq> snd ` set d"
  proof
    fix x assume "x \<in> f ` S"
    then obtain k where "k \<in> S" "x = f k" by auto
    then have "map_of d k = Some x" using assms(2) by simp
    then show "x \<in> snd ` set d" by (force dest: map_of_SomeD)
  qed
qed

lemma d_lookup_d_setdefault: "\<exists>w. d_lookup (d_setdefault d k v) k = Inr w"
  by (cases "map_of d k") (simp_all add: d_lookup_def map_of_d_setdefault)

lemma py_slice_bound_nat [py_simps]:
  "0 \<le> i \<Longrightarrow> i \<le> len \<Longrightarrow> py_slice_bound len i = nat i"
  by (simp add: py_slice_bound_def)

lemma py_slice_bound_neg [py_simps]:
  "i < 0 \<Longrightarrow> 0 \<le> i + len \<Longrightarrow> 0 \<le> len \<Longrightarrow> py_slice_bound len i = nat (i + len)"
  by (simp add: py_slice_bound_def)

lemma py_slice_nat:
  "a \<le> b \<Longrightarrow> b \<le> length xs \<Longrightarrow> py_slice xs (int a) (int b) = take (b - a) (drop a xs)"
  by (simp add: py_slice_def py_simps)

lemma py_slice_assign_nat:
  "a \<le> b \<Longrightarrow> b \<le> length xs \<Longrightarrow> py_slice_assign xs (int a) (int b) ys = take a xs @ ys @ drop b xs"
  by (simp add: py_slice_assign_def py_simps)

lemma replicate_numeral: "replicate (numeral k) x = x # replicate (pred_numeral k) x"
  by (simp add: numeral_eq_Suc)

lemmas py_str_eval = split_ws_def is_py_space_def py_int_def py_digits_def is_digit_def digit_val_def

lemma py_map_Inr: "(\<forall>x \<in> set xs. f x = Inr (g x)) \<Longrightarrow> py_map f xs = Inr (map g xs)"
  by (induction xs) simp_all

lemma sum_list_filter_map:
  "sum_list (map f (filter P xs)) = sum_list (map (\<lambda>x. if P x then f x else 0) xs)"
  by (induction xs) simp_all

lemma sum_list_upt_delta:
  "k < n \<Longrightarrow> sum_list (map (\<lambda>j. if j = k then (x :: int) else 0) [0..<n]) = x"
proof -
  assume "k < n"
  have "sum_list (map (\<lambda>j. if j = k then x else 0) [0..<n]) = sum (\<lambda>j. if j = k then x else 0) {0..<n}"
    by (simp add: sum_list_distinct_conv_sum_set)
  also have "\<dots> = x" using \<open>k < n\<close> by simp
  finally show ?thesis .
qed

lemma set_update_sub: "set (AList.update k v d) \<subseteq> insert (k, v) (set d)"
  by (induction d) auto

text \<open>What \<open>pop\<close> and an assignment do to a dictionary whose values all lie in \<open>S\<close>.\<close>

lemma store_delete:
  "distinct (map fst d) \<Longrightarrow> map_of (AList.delete k d) = (map_of d)(k := None) \<and> distinct (map fst (AList.delete k d)) \<and>
     set (AList.delete k d) \<subseteq> set d"
  by (simp add: delete_conv' distinct_delete) (induction d; auto)

lemma store_set:
  "distinct (map fst d) \<Longrightarrow> \<forall>(k', s') \<in> set d. s' \<in> S \<Longrightarrow> s \<in> S \<Longrightarrow>
     map_of (d_set d k s) = (map_of d)(k \<mapsto> s) \<and> distinct (map fst (d_set d k s)) \<and>
     (\<forall>(k', s') \<in> set (d_set d k s). s' \<in> S)"
  using set_update_sub[of k s d] by (simp add: map_of_d_set distinct_d_set) (auto simp: d_set_def)

lemma list_index_nth: "list_index xs x k = Inr i \<Longrightarrow> \<exists>j < length xs. i = int (k + j) \<and> xs ! j = x"
proof (induction xs arbitrary: k)
  case (Cons y ys)
  show ?case
  proof (cases "y = x")
    case False
    then have "list_index ys x (Suc k) = Inr i" using Cons.prems by simp
    from Cons.IH[OF this] obtain j where "j < length ys" "i = int (Suc k + j)" "ys ! j = x" by blast
    then show ?thesis by (intro exI[of _ "Suc j"]) simp
  qed (use Cons.prems in auto)
qed simp

end
