(* ===== verification/Duet_Instr.thy ===== *)
theory Duet_Instr
  imports Prelude
begin

text \<open>
  Day 18 (\<open>src/code/day18/day18.py\<close>), the decoded program shared by both
  interpreters. \<open>process_instructions\<close> turns each line into a Python list
  \<open>[instruc_type, register, value]\<close>: the opcode stays a string, an operand stays a
  string when it is a single lowercase letter (a register) and is converted by
  \<open>int\<close> otherwise, and a missing third token is \<open>None\<close>. Here the operand is
  the datatype \<open>operand\<close>, the missing value is \<open>None\<close> of \<open>operand option\<close>,
  and the values that registers hold and \<open>snd\<close> returns are \<open>pyval\<close>: a Python
  integer or \<open>None\<close>, because \<open>set X\<close> without a value stores \<open>None\<close>.
\<close>

datatype operand = Reg char | Imm int

datatype instr = Instr (itype: string) (ireg: operand) (ival: "operand option")

datatype pyval = PInt int | PNone

text \<open>\<open>possible_registers = set(list(string.ascii_lowercase))\<close>: a token is a
  register when it is one lowercase ASCII letter.\<close>

definition is_register_tok :: "string \<Rightarrow> bool" where
  "is_register_tok t \<longleftrightarrow> (case t of [c] \<Rightarrow> 97 \<le> (of_char c :: nat) \<and> (of_char c :: nat) \<le> 122 | _ \<Rightarrow> False)"

definition operand_tok :: "string \<Rightarrow> operand py" where
  "operand_tok t =
     (if is_register_tok t then Inr (Reg (hd t))
      else case py_int t of Inl e \<Rightarrow> Inl e | Inr n \<Rightarrow> Inr (Imm n))"

text \<open>
  One line, as the body of the \<open>for\<close> loop of \<open>process_instructions\<close>: the
  \<open>assert\<close>, the appended \<open>None\<close>, the conversion of the third token before the
  second. A line of one token makes \<open>int(None)\<close> raise \<open>TypeError\<close>; an empty
  line makes \<open>instruction[1]\<close> raise \<open>IndexError\<close>.
\<close>

definition parse_line :: "string \<Rightarrow> instr py" where
  "parse_line line =
     (let toks = split_ws line in
      if 3 < length toks then Inl AssertionError
      else case toks of
        [] \<Rightarrow> Inl IndexError
      | [op] \<Rightarrow> Inl TypeError
      | [op, a] \<Rightarrow>
          (case operand_tok a of Inl e \<Rightarrow> Inl e | Inr x \<Rightarrow> Inr (Instr op x None))
      | op # a # b # _ \<Rightarrow>
          (case operand_tok b of Inl e \<Rightarrow> Inl e
           | Inr y \<Rightarrow> (case operand_tok a of Inl e \<Rightarrow> Inl e
                       | Inr x \<Rightarrow> Inr (Instr op x (Some y)))))"

text \<open>\<open>list(process_instructions(file))\<close>: the generator is drained, and the
  first exception ends the list.\<close>

fun process_instructions :: "string list \<Rightarrow> instr list py" where
  "process_instructions [] = Inr []"
| "process_instructions (l # ls) =
     (case parse_line l of Inl e \<Rightarrow> Inl e
      | Inr i \<Rightarrow> (case process_instructions ls of Inl e \<Rightarrow> Inl e | Inr ins \<Rightarrow> Inr (i # ins)))"

text \<open>
  The Python operations both interpreters apply to register contents: \<open>+\<close>,
  \<open>*\<close> and \<open>%\<close> raise \<open>TypeError\<close> on \<open>None\<close>; \<open>x > 0\<close> raises on
  \<open>None\<close> as well; \<open>x != 0\<close> holds for \<open>None\<close>; \<open>if x:\<close> is false for
  \<open>None\<close> and for \<open>0\<close>.
\<close>

fun py_add :: "pyval \<Rightarrow> pyval \<Rightarrow> pyval py" where
  "py_add (PInt a) (PInt b) = Inr (PInt (a + b))"
| "py_add _ _ = Inl TypeError"

fun py_mul :: "pyval \<Rightarrow> pyval \<Rightarrow> pyval py" where
  "py_mul (PInt a) (PInt b) = Inr (PInt (a * b))"
| "py_mul _ _ = Inl TypeError"

fun py_modv :: "pyval \<Rightarrow> pyval \<Rightarrow> pyval py" where
  "py_modv (PInt a) (PInt b) = (case py_mod a b of Inl e \<Rightarrow> Inl e | Inr c \<Rightarrow> Inr (PInt c))"
| "py_modv _ _ = Inl TypeError"

fun py_gt0 :: "pyval \<Rightarrow> bool py" where
  "py_gt0 (PInt a) = Inr (0 < a)"
| "py_gt0 PNone = Inl TypeError"

fun py_ne0 :: "pyval \<Rightarrow> bool" where
  "py_ne0 (PInt a) = (a \<noteq> 0)"
| "py_ne0 PNone = True"

fun py_truthy :: "pyval \<Rightarrow> bool" where
  "py_truthy (PInt a) = (a \<noteq> 0)"
| "py_truthy PNone = False"

text \<open>Resolving an operand the way the code writes
  \<open>self.registers[x] if isinstance(x, str) else x\<close>; an absent operand is \<open>None\<close>.\<close>

type_synonym regbank = "operand \<rightharpoonup> pyval"

fun opnd_val :: "regbank \<Rightarrow> operand option \<Rightarrow> pyval py" where
  "opnd_val rs None = Inr PNone"
| "opnd_val rs (Some (Imm n)) = Inr (PInt n)"
| "opnd_val rs (Some (Reg c)) = py_lookup rs (Reg c)"

section \<open>Lemmas on decoding\<close>

lemma process_instructions_length:
  "process_instructions ls = Inr ins \<Longrightarrow> length ins = length ls"
  by (induction ls arbitrary: ins) (auto split: sum.splits)

lemma process_instructions_nth:
  "process_instructions ls = Inr ins \<Longrightarrow> k < length ls \<Longrightarrow> parse_line (ls ! k) = Inr (ins ! k)"
proof (induction ls arbitrary: ins k)
  case Nil
  then show ?case by simp
next
  case (Cons l ls)
  then show ?case by (cases k) (auto split: sum.splits)
qed

lemmas parse_eval = parse_line_def split_ws_def is_py_space_def operand_tok_def is_register_tok_def
  py_int_def py_digits_def is_digit_def digit_val_def

end
