(* ===== verification/Duet_Sound.thy ===== *)
theory Duet_Sound
  imports Duet_Instr
begin

text \<open>
  The sound variant of the Duet interpreter: class \<open>music_player\<close> of
  \<open>src/code/day18/day18.py\<close>. The object's fields are the record \<open>music\<close>
  (the instruction list is the fixed parameter \<open>prog\<close>); each method is one
  function returning the new state and the method's return value; the loop of
  \<open>play_instructions\<close> is a \<open>partial_function (option)\<close>, since a program may jump
  forever, and \<open>None\<close> is "does not return".
\<close>

record music =
  m_pc :: int
  m_regs :: regbank
  last_played :: pyval

definition music_init :: music where
  "music_init = \<lparr>m_pc = 0, m_regs = Map.empty, last_played = PNone\<rparr>"

section \<open>The methods\<close>

text \<open>\<open>snd\<close> reads the first operand as a dictionary key, also when it is an
  integer: the code never resolves it as a value.\<close>

definition m_snd :: "operand \<Rightarrow> music \<Rightarrow> (music \<times> pyval) py" where
  "m_snd r s = (case py_lookup (m_regs s) r of Inl e \<Rightarrow> Inl e
     | Inr x \<Rightarrow> Inr (s\<lparr>last_played := x\<rparr>, PNone))"

definition m_set :: "operand \<Rightarrow> pyval \<Rightarrow> music \<Rightarrow> (music \<times> pyval) py" where
  "m_set r v s = Inr (s\<lparr>m_regs := (m_regs s)(r \<mapsto> v)\<rparr>, PNone)"

definition m_arith ::
  "(pyval \<Rightarrow> pyval \<Rightarrow> pyval py) \<Rightarrow> operand \<Rightarrow> pyval \<Rightarrow> music \<Rightarrow> (music \<times> pyval) py" where
  "m_arith f r v s = (case py_lookup (m_regs s) r of Inl e \<Rightarrow> Inl e
     | Inr x \<Rightarrow> (case f x v of Inl e \<Rightarrow> Inl e
         | Inr y \<Rightarrow> Inr (s\<lparr>m_regs := (m_regs s)(r \<mapsto> y)\<rparr>, PNone)))"

definition m_add :: "operand \<Rightarrow> pyval \<Rightarrow> music \<Rightarrow> (music \<times> pyval) py" where
  "m_add = m_arith py_add"

definition m_mul :: "operand \<Rightarrow> pyval \<Rightarrow> music \<Rightarrow> (music \<times> pyval) py" where
  "m_mul = m_arith py_mul"

definition m_mod :: "operand \<Rightarrow> pyval \<Rightarrow> music \<Rightarrow> (music \<times> pyval) py" where
  "m_mod = m_arith py_modv"

text \<open>\<open>rcv\<close> returns the last sound when the register is not \<open>0\<close>
  (\<open>None != 0\<close> holds), and \<open>None\<close> otherwise.\<close>

definition m_rcv :: "operand \<Rightarrow> music \<Rightarrow> (music \<times> pyval) py" where
  "m_rcv r s = (case py_lookup (m_regs s) r of Inl e \<Rightarrow> Inl e
     | Inr x \<Rightarrow> Inr (s, if py_ne0 x then last_played s else PNone))"

text \<open>\<open>jgz\<close> tests \<open>!= 0\<close>, not \<open>> 0\<close>, and moves by \<open>offset - 1\<close>: the loop adds
  the last \<open>1\<close>.\<close>

definition m_jgz :: "operand \<Rightarrow> pyval \<Rightarrow> music \<Rightarrow> (music \<times> pyval) py" where
  "m_jgz r off s = (case py_lookup (m_regs s) r of Inl e \<Rightarrow> Inl e
     | Inr x \<Rightarrow> if py_ne0 x
               then (case off of PInt k \<Rightarrow> Inr (s\<lparr>m_pc := m_pc s + (k - 1)\<rparr>, PNone)
                     | PNone \<Rightarrow> Inl TypeError)
               else Inr (s, PNone))"

section \<open>One instruction: \<open>play_instruction\<close>\<close>

text \<open>
  \<open>setdefault(register, 0)\<close> on the first operand, whatever its type; the value
  operand is looked up only when it is a register name; the \<open>if\<close>/\<open>elif\<close> chain
  on the opcode string; an unknown opcode leaves \<open>ret\<close> unassigned, and
  \<open>return(ret)\<close> raises \<open>UnboundLocalError\<close>.
\<close>

definition music_exec :: "instr \<Rightarrow> music \<Rightarrow> (music \<times> pyval) py" where
  "music_exec ins s0 =
     (let r = ireg ins; op = itype ins;
          s = s0\<lparr>m_regs := py_setdefault (m_regs s0) r (PInt 0)\<rparr>
      in case opnd_val (m_regs s) (ival ins) of Inl e \<Rightarrow> Inl e
         | Inr v \<Rightarrow>
            if op = ''snd'' then m_snd r s
            else if op = ''set'' then m_set r v s
            else if op = ''add'' then m_add r v s
            else if op = ''mul'' then m_mul r v s
            else if op = ''mod'' then m_mod r v s
            else if op = ''rcv'' then m_rcv r s
            else if op = ''jgz'' then m_jgz r v s
            else Inl UnboundLocalError)"

section \<open>The loop: \<open>play_instructions\<close>\<close>

text \<open>
  \<open>while self.current_instruction < len(self.instructions)\<close>: only the upper end
  is tested, and a negative index reads from the end of the list as Python does.
  The loop stops at the first truthy return value; when it falls off the end the
  last return value is the result, and a loop that never ran leaves \<open>ret\<close>
  unassigned (the argument \<open>ret\<close> is \<open>None\<close> then). \<open>reset()\<close> restores the
  initial state, so only the result is observable.
\<close>

partial_function (option) music_loop :: "instr list \<Rightarrow> music \<Rightarrow> pyval option \<Rightarrow> pyval py option" where
  "music_loop prog s ret =
     (if m_pc s < int (length prog) then
        (case py_index prog (m_pc s) of Inl e \<Rightarrow> Some (Inl e)
         | Inr ins \<Rightarrow>
            (case music_exec ins s of Inl e \<Rightarrow> Some (Inl e)
             | Inr (s', r) \<Rightarrow>
                if py_truthy r then Some (Inr r)
                else music_loop prog (s'\<lparr>m_pc := m_pc s' + 1\<rparr>) (Some r)))
      else (case ret of None \<Rightarrow> Some (Inl UnboundLocalError) | Some r \<Rightarrow> Some (Inr r)))"

definition play_instructions :: "instr list \<Rightarrow> pyval py option" where
  "play_instructions prog = music_loop prog music_init None"

section \<open>Properties of the sound variant\<close>

lemmas music_method_defs = m_snd_def m_set_def m_arith_def m_add_def m_mul_def m_mod_def m_rcv_def m_jgz_def

lemmas music_eval = play_instructions_def music_init_def music_exec_def music_method_defs
  py_setdefault_def py_lookup_def py_index_def py_mod_def Let_def

lemma music_exec_pc:
  "music_exec ins s = Inr (s', r) \<Longrightarrow> itype ins \<noteq> ''jgz'' \<Longrightarrow> m_pc s' = m_pc s"
  by (auto simp: music_exec_def music_method_defs Let_def split: if_splits sum.splits)

lemma music_loop_no_jgz:
  assumes "\<forall>i \<in> set prog. itype i \<noteq> ''jgz''"
  shows "0 \<le> m_pc s \<Longrightarrow> music_loop prog s ret \<noteq> None"
proof (induction "nat (int (length prog) - m_pc s)" arbitrary: s ret rule: less_induct)
  case less
  show ?case
  proof (cases "m_pc s < int (length prog)")
    case False
    then show ?thesis by (subst music_loop.simps) (simp split: option.split)
  next
    case True
    with less.prems obtain ins where ins: "py_index prog (m_pc s) = Inr ins" "ins \<in> set prog"
      by (auto simp: py_index_def)
    show ?thesis
    proof (cases "music_exec ins s")
      case (Inl e)
      with True ins show ?thesis by (subst music_loop.simps) simp
    next
      case (Inr res)
      obtain s' r where res: "res = (s', r)" by (cases res)
      have pc': "m_pc s' = m_pc s" using music_exec_pc Inr res ins(2) assms by blast
      have "music_loop prog (s'\<lparr>m_pc := m_pc s' + 1\<rparr>) (Some r) \<noteq> None"
        using less.hyps[of "s'\<lparr>m_pc := m_pc s' + 1\<rparr>"] True less.prems pc' by simp
      with True ins Inr res show ?thesis by (subst music_loop.simps) simp
    qed
  qed
qed

text \<open>C7: the sound variant returns on every program without \<open>jgz\<close>: the counter
  only grows, by one per instruction.\<close>

theorem music_terminates_without_jgz:
  "\<forall>i \<in> set prog. itype i \<noteq> ''jgz'' \<Longrightarrow> \<exists>r. play_instructions prog = Some r"
  using music_loop_no_jgz[of prog music_init None] by (auto simp: play_instructions_def music_init_def)

end
