(* ===== verification/Duet_Player.thy ===== *)
theory Duet_Player
  imports Duet_Instr
begin

text \<open>
  One machine of the concurrent Duet variant: class \<open>player\<close> of
  \<open>src/code/day18/day18.py\<close>. Its fields are the record \<open>player\<close>; the shared
  instruction list is the parameter \<open>prog\<close>. Each method is one function that
  returns the new state and the method's return value (\<open>PNone\<close> for Python's
  \<open>None\<close>); \<open>play_instruction\<close> fetches, dispatches and marks the machine
  finished when its program counter leaves the program.
\<close>

record player =
  pc :: int
  inbox :: "pyval list"
  regs :: regbank
  deadlocked :: bool
  finished :: bool

definition player_init :: "int \<Rightarrow> player" where
  "player_init pid =
     \<lparr>pc = 0, inbox = [], regs = [Reg CHR ''p'' \<mapsto> PInt pid], deadlocked = False, finished = False\<rparr>"

section \<open>The methods\<close>

text \<open>\<open>snd\<close> advances first and returns the value of its operand, which it
  resolves: a register's content, or the integer itself.\<close>

definition p_snd :: "operand \<Rightarrow> player \<Rightarrow> (player \<times> pyval) py" where
  "p_snd r p = (case opnd_val (regs p) (Some r) of Inl e \<Rightarrow> Inl e
     | Inr x \<Rightarrow> Inr (p\<lparr>pc := pc p + 1\<rparr>, x))"

definition p_set :: "operand \<Rightarrow> operand option \<Rightarrow> player \<Rightarrow> (player \<times> pyval) py" where
  "p_set r v p = (case opnd_val (regs p) v of Inl e \<Rightarrow> Inl e
     | Inr x \<Rightarrow> Inr (p\<lparr>regs := (regs p)(r \<mapsto> x), pc := pc p + 1\<rparr>, PNone))"

text \<open>\<open>add\<close>, \<open>mul\<close> and \<open>mod\<close> share one shape:
  \<open>self.registers[register] = f(self.registers[register], value)\<close>.\<close>

definition p_arith ::
  "(pyval \<Rightarrow> pyval \<Rightarrow> pyval py) \<Rightarrow> operand \<Rightarrow> operand option \<Rightarrow> player \<Rightarrow> (player \<times> pyval) py" where
  "p_arith f r v p = (case opnd_val (regs p) v of Inl e \<Rightarrow> Inl e
     | Inr x \<Rightarrow> (case py_lookup (regs p) r of Inl e \<Rightarrow> Inl e
        | Inr y \<Rightarrow> (case f y x of Inl e \<Rightarrow> Inl e
           | Inr z \<Rightarrow> Inr (p\<lparr>regs := (regs p)(r \<mapsto> z), pc := pc p + 1\<rparr>, PNone))))"

definition p_add :: "operand \<Rightarrow> operand option \<Rightarrow> player \<Rightarrow> (player \<times> pyval) py" where
  "p_add = p_arith py_add"

definition p_mul :: "operand \<Rightarrow> operand option \<Rightarrow> player \<Rightarrow> (player \<times> pyval) py" where
  "p_mul = p_arith py_mul"

definition p_mod :: "operand \<Rightarrow> operand option \<Rightarrow> player \<Rightarrow> (player \<times> pyval) py" where
  "p_mod = p_arith py_modv"

text \<open>\<open>rcv\<close> pops the oldest message into the register and advances; on an empty
  queue it only sets \<open>deadlocked\<close>, and the same instruction runs again next turn.\<close>

definition p_rcv :: "operand \<Rightarrow> player \<Rightarrow> (player \<times> pyval) py" where
  "p_rcv r p = (case inbox p of
       x # xs \<Rightarrow> Inr (p\<lparr>regs := (regs p)(r \<mapsto> x), pc := pc p + 1, inbox := xs, deadlocked := False\<rparr>, PNone)
     | [] \<Rightarrow> Inr (p\<lparr>deadlocked := True\<rparr>, PNone))"

text \<open>\<open>jgz\<close> resolves the offset, then the tested value; \<open>None > 0\<close> and
  \<open>pc + None\<close> raise \<open>TypeError\<close>.\<close>

definition p_jgz :: "operand \<Rightarrow> operand option \<Rightarrow> player \<Rightarrow> (player \<times> pyval) py" where
  "p_jgz r v p = (case opnd_val (regs p) v of Inl e \<Rightarrow> Inl e
     | Inr off \<Rightarrow> (case opnd_val (regs p) (Some r) of Inl e \<Rightarrow> Inl e
        | Inr x \<Rightarrow> (case py_gt0 x of Inl e \<Rightarrow> Inl e
           | Inr True \<Rightarrow> (case off of PInt k \<Rightarrow> Inr (p\<lparr>pc := pc p + k\<rparr>, PNone)
                         | PNone \<Rightarrow> Inl TypeError)
           | Inr False \<Rightarrow> Inr (p\<lparr>pc := pc p + 1\<rparr>, PNone))))"

section \<open>One turn: \<open>play_instruction\<close>\<close>

definition player_exec :: "instr \<Rightarrow> player \<Rightarrow> (player \<times> pyval) py" where
  "player_exec ins p =
     (let op = itype ins; r = ireg ins; v = ival ins in
      if op = ''snd'' then p_snd r p
      else if op = ''set'' then p_set r v p
      else if op = ''add'' then p_add r v p
      else if op = ''mul'' then p_mul r v p
      else if op = ''mod'' then p_mod r v p
      else if op = ''rcv'' then p_rcv r p
      else if op = ''jgz'' then p_jgz r v p
      else Inl UnboundLocalError)"

text \<open>\<open>if isinstance(register, str): self.registers.setdefault(register, 0)\<close>\<close>

definition reg_default :: "operand \<Rightarrow> player \<Rightarrow> player" where
  "reg_default r p = (case r of Reg c \<Rightarrow> p\<lparr>regs := py_setdefault (regs p) (Reg c) (PInt 0)\<rparr> | Imm _ \<Rightarrow> p)"

text \<open>\<open>if self.current_instruction >= len(self.instructions) or
  self.current_instruction < 0: self.finished_playing = True\<close>\<close>

definition check_finished :: "instr list \<Rightarrow> player \<Rightarrow> player" where
  "check_finished prog p =
     (if int (length prog) \<le> pc p \<or> pc p < 0 then p\<lparr>finished := True\<rparr> else p)"

text \<open>
  A finished machine does nothing and returns \<open>None\<close>. Otherwise the instruction at
  \<open>current_instruction\<close> is fetched (Python indexing), a register operand gets its
  default \<open>0\<close>, the method runs, and the machine is marked finished when its counter
  has left the program.
\<close>

definition play_instruction :: "instr list \<Rightarrow> player \<Rightarrow> (player \<times> pyval) py" where
  "play_instruction prog p =
     (if finished p then Inr (p, PNone)
      else case py_index prog (pc p) of Inl e \<Rightarrow> Inl e
        | Inr ins \<Rightarrow>
           (case player_exec ins (reg_default (ireg ins) p) of Inl e \<Rightarrow> Inl e
            | Inr (p', ret) \<Rightarrow> Inr (check_finished prog p', ret)))"

section \<open>Invariants of one machine\<close>

text \<open>
  \<open>pc_ok\<close>: a machine is finished exactly when its counter is outside the program.
  \<open>dl_ok\<close>: a deadlocked machine is not finished and stands at a \<open>rcv\<close>.
\<close>

definition pc_ok :: "instr list \<Rightarrow> player \<Rightarrow> bool" where
  "pc_ok prog p \<longleftrightarrow> (finished p \<longleftrightarrow> \<not> (0 \<le> pc p \<and> pc p < int (length prog)))"

definition at_rcv :: "instr list \<Rightarrow> player \<Rightarrow> bool" where
  "at_rcv prog p \<longleftrightarrow> (case py_index prog (pc p) of Inr ins \<Rightarrow> itype ins = ''rcv'' | Inl _ \<Rightarrow> False)"

definition dl_ok :: "instr list \<Rightarrow> player \<Rightarrow> bool" where
  "dl_ok prog p \<longleftrightarrow> (deadlocked p \<longrightarrow> \<not> finished p \<and> at_rcv prog p)"

definition player_inv :: "instr list \<Rightarrow> player \<Rightarrow> bool" where
  "player_inv prog p \<longleftrightarrow> pc_ok prog p \<and> dl_ok prog p"

section \<open>Properties of one machine\<close>

lemmas player_method_defs = p_snd_def p_set_def p_arith_def p_add_def p_mul_def p_mod_def p_rcv_def p_jgz_def

lemma player_exec_finished:
  "player_exec ins p = Inr (p', r) \<Longrightarrow> finished p' = finished p"
  by (auto simp: player_exec_def player_method_defs Let_def
      split: if_splits sum.splits pyval.splits bool.splits list.splits)

lemma player_exec_inbox:
  "player_exec ins p = Inr (p', r) \<Longrightarrow> suffix (inbox p') (inbox p)"
  by (auto simp: suffix_def player_exec_def player_method_defs Let_def
      split: if_splits sum.splits pyval.splits bool.splits list.splits)

lemma player_exec_deadlocked:
  "player_exec ins p = Inr (p', r) \<Longrightarrow> itype ins \<noteq> ''rcv'' \<Longrightarrow> deadlocked p' = deadlocked p"
  by (auto simp: player_exec_def player_method_defs Let_def
      split: if_splits sum.splits pyval.splits bool.splits list.splits)

lemma player_exec_ret:
  "player_exec ins p = Inr (p', r) \<Longrightarrow> itype ins \<noteq> ''snd'' \<Longrightarrow> r = PNone"
  by (auto simp: player_exec_def player_method_defs Let_def
      split: if_splits sum.splits pyval.splits bool.splits list.splits)

lemma player_exec_rcv:
  "itype ins = ''rcv'' \<Longrightarrow> player_exec ins p = p_rcv (ireg ins) p"
  by (simp add: player_exec_def)

lemma reg_default_fields [simp]:
  "pc (reg_default r p) = pc p" "inbox (reg_default r p) = inbox p"
  "deadlocked (reg_default r p) = deadlocked p" "finished (reg_default r p) = finished p"
  by (simp_all add: reg_default_def split: operand.split)

lemma check_finished_fields [simp]:
  "pc (check_finished prog p) = pc p" "inbox (check_finished prog p) = inbox p"
  "regs (check_finished prog p) = regs p" "deadlocked (check_finished prog p) = deadlocked p"
  "finished (check_finished prog p) \<longleftrightarrow> finished p \<or> \<not> (0 \<le> pc p \<and> pc p < int (length prog))"
  by (auto simp: check_finished_def)

text \<open>A finished player's turn changes nothing and returns \<open>None\<close>.\<close>

theorem play_instruction_finished_noop:
  "finished p \<Longrightarrow> play_instruction prog p = Inr (p, PNone)"
  by (simp add: play_instruction_def)

lemma play_instruction_Inr:
  assumes "play_instruction prog p = Inr (p', r)"
  obtains "finished p" "p' = p" "r = PNone"
  | ins q where "\<not> finished p" "py_index prog (pc p) = Inr ins"
      "player_exec ins (reg_default (ireg ins) p) = Inr (q, r)" "p' = check_finished prog q"
  using assms by (cases "finished p") (auto simp: play_instruction_def split: sum.splits)

lemma play_instruction_pc_ok:
  assumes "pc_ok prog p" "play_instruction prog p = Inr (p', r)"
  shows "pc_ok prog p'"
  using assms(2)
proof (cases rule: play_instruction_Inr)
  case 1
  with assms(1) show ?thesis by simp
next
  case (2 ins q)
  have "finished q = False"
    using player_exec_finished[OF 2(3)] 2(1) by simp
  with 2(4) show ?thesis by (simp add: pc_ok_def)
qed

lemma play_instruction_dl_ok:
  assumes "player_inv prog p" "play_instruction prog p = Inr (p', r)"
  shows "dl_ok prog p'"
  using assms(2)
proof (cases rule: play_instruction_Inr)
  case 1
  with assms(1) show ?thesis by (simp add: player_inv_def)
next
  case (2 ins q)
  from 2(1) assms(1) have rng: "0 \<le> pc p" "pc p < int (length prog)"
    by (auto simp: player_inv_def pc_ok_def)
  show ?thesis
  proof (cases "itype ins = ''rcv''")
    case True
    with 2(3) have q: "p_rcv (ireg ins) (reg_default (ireg ins) p) = Inr (q, r)"
      by (simp add: player_exec_rcv)
    show ?thesis
    proof (cases "inbox p")
      case Nil
      with q have "pc q = pc p" "finished q = False" "deadlocked q"
        using 2(1) by (auto simp: p_rcv_def)
      with 2(2,4) rng True show ?thesis by (simp add: dl_ok_def at_rcv_def)
    next
      case (Cons x xs)
      with q have "\<not> deadlocked q" by (auto simp: p_rcv_def)
      with 2(4) show ?thesis by (simp add: dl_ok_def)
    qed
  next
    case False
    with 2(3) have "deadlocked q = deadlocked p"
      by (simp add: player_exec_deadlocked)
    moreover have "\<not> deadlocked p"
      using assms(1) 2(2) False by (auto simp: player_inv_def dl_ok_def at_rcv_def)
    ultimately show ?thesis using 2(4) by (simp add: dl_ok_def)
  qed
qed

lemma play_instruction_inv:
  "player_inv prog p \<Longrightarrow> play_instruction prog p = Inr (p', r) \<Longrightarrow> player_inv prog p'"
  using play_instruction_pc_ok play_instruction_dl_ok by (auto simp: player_inv_def)

lemma play_instruction_deadlocked_empty:
  assumes "player_inv prog p" "play_instruction prog p = Inr (p', r)" "deadlocked p'"
  shows "inbox p' = []"
  using assms(2)
proof (cases rule: play_instruction_Inr)
  case 1
  with assms show ?thesis by (simp add: player_inv_def dl_ok_def)
next
  case (2 ins q)
  show ?thesis
  proof (cases "itype ins = ''rcv''")
    case True
    with 2(3) have q: "p_rcv (ireg ins) (reg_default (ireg ins) p) = Inr (q, r)"
      by (simp add: player_exec_rcv)
    with assms(3) 2(4) show ?thesis by (auto simp: p_rcv_def split: list.splits)
  next
    case False
    with 2(3) assms(3) 2(4) have "deadlocked p"
      by (simp add: player_exec_deadlocked)
    with assms(1) 2(2) False show ?thesis by (auto simp: player_inv_def dl_ok_def at_rcv_def)
  qed
qed

lemma play_instruction_inbox:
  "play_instruction prog p = Inr (p', r) \<Longrightarrow> suffix (inbox p') (inbox p)"
  by (erule play_instruction_Inr) (auto dest: player_exec_inbox)

lemma play_instruction_ret:
  assumes "play_instruction prog p = Inr (p', r)" "r \<noteq> PNone"
  shows "\<not> finished p \<and> (\<exists>ins. py_index prog (pc p) = Inr ins \<and> itype ins = ''snd'')"
  using assms(1)
proof (cases rule: play_instruction_Inr)
  case 1
  with assms(2) show ?thesis by simp
next
  case (2 ins q)
  with assms(2) player_exec_ret[OF 2(3)] show ?thesis by auto
qed

lemma reg_default_idem [simp]: "reg_default r (reg_default r p) = reg_default r p"
  by (simp add: reg_default_def py_setdefault_def split: operand.split option.split)

lemma reg_default_upd_dl: "reg_default r (p\<lparr>deadlocked := b\<rparr>) = (reg_default r p)\<lparr>deadlocked := b\<rparr>"
  by (simp add: reg_default_def split: operand.split)

end
