(* ===== verification/Duet_Pair.thy ===== *)
theory Duet_Pair
  imports Duet_Player
begin

text \<open>
  The pair runner: class \<open>duet_player\<close> of \<open>src/code/day18/day18.py\<close>. Two
  players with program ids 0 and 1 take turns, 0 first; a value a player returns
  (anything but \<open>None\<close>) is appended to the other player's \<open>received_messages\<close>
  at once, and a value of player 1 is counted. After each round the loop stops when
  every player is \<open>deadlocked\<close> or \<open>finished_playing\<close>. The round is a function
  on the record \<open>duet\<close>; the \<open>while\<close> loop is a \<open>partial_function (option)\<close>.
\<close>

record duet =
  pl0 :: player
  pl1 :: player
  counter :: nat

definition duet_init :: duet where
  "duet_init = \<lparr>pl0 = player_init 0, pl1 = player_init 1, counter = 0\<rparr>"

text \<open>\<open>if ret is not None: players[(i + 1) % 2].received_messages.append(ret)\<close>\<close>

definition deliver :: "pyval \<Rightarrow> player \<Rightarrow> player" where
  "deliver v q = (if v = PNone then q else q\<lparr>inbox := inbox q @ [v]\<rparr>)"

text \<open>One pass of \<open>for i, player in enumerate(self.players)\<close>.\<close>

definition duet_round :: "instr list \<Rightarrow> duet \<Rightarrow> duet py" where
  "duet_round prog d =
     (case play_instruction prog (pl0 d) of Inl e \<Rightarrow> Inl e
      | Inr (a, r0) \<Rightarrow>
         (case play_instruction prog (deliver r0 (pl1 d)) of Inl e \<Rightarrow> Inl e
          | Inr (b, r1) \<Rightarrow>
             Inr \<lparr>pl0 = deliver r1 a, pl1 = b,
                  counter = counter d + (if r1 = PNone then 0 else 1)\<rparr>))"

definition player_done :: "player \<Rightarrow> bool" where
  "player_done p \<longleftrightarrow> deadlocked p \<or> finished p"

definition all_done :: "duet \<Rightarrow> bool" where
  "all_done d \<longleftrightarrow> player_done (pl0 d) \<and> player_done (pl1 d)"

text \<open>\<open>while not finished\<close>, with \<open>finished\<close> initially false: a round always runs
  before the test. \<open>duet_run\<close> is the loop on the runner's state and returns the
  state it stops in; \<open>play_instructions\<close> returns its counter.\<close>

partial_function (option) duet_run :: "instr list \<Rightarrow> duet \<Rightarrow> duet py option" where
  "duet_run prog d =
     (case duet_round prog d of Inl e \<Rightarrow> Some (Inl e)
      | Inr d' \<Rightarrow> if all_done d' then Some (Inr d') else duet_run prog d')"

definition duet_play :: "instr list \<Rightarrow> nat py option" where
  "duet_play prog =
     (case duet_run prog duet_init of None \<Rightarrow> None
      | Some (Inl e) \<Rightarrow> Some (Inl e)
      | Some (Inr d) \<Rightarrow> Some (Inr (counter d)))"

section \<open>Runs of the runner\<close>

text \<open>
  The states the loop passes through: the initial one, and the result of a round
  from a state where the loop goes on. \<open>duet_hist\<close> runs the same rounds and also
  records, for each player, the values it sent (its non-\<open>None\<close> returns) and the
  values it took from its queue, in order.
\<close>

definition sent_of :: "pyval \<Rightarrow> pyval list" where
  "sent_of v = (if v = PNone then [] else [v])"

inductive duet_reach :: "instr list \<Rightarrow> duet \<Rightarrow> bool" for prog where
  reach_init: "duet_reach prog duet_init"
| reach_round: "duet_reach prog d \<Longrightarrow> \<not> all_done d \<Longrightarrow> duet_round prog d = Inr d' \<Longrightarrow> duet_reach prog d'"

text \<open>The values a turn took from the front of a player's queue.\<close>

definition taken :: "player \<Rightarrow> player \<Rightarrow> pyval list" where
  "taken p p' = take (length (inbox p) - length (inbox p')) (inbox p)"

inductive duet_hist ::
  "instr list \<Rightarrow> duet \<Rightarrow> pyval list \<Rightarrow> pyval list \<Rightarrow> pyval list \<Rightarrow> pyval list \<Rightarrow> bool" for prog where
  hist_init: "duet_hist prog duet_init [] [] [] []"
| hist_round: "duet_hist prog d s0 s1 g0 g1 \<Longrightarrow> \<not> all_done d \<Longrightarrow> duet_round prog d = Inr d' \<Longrightarrow>
    play_instruction prog (pl0 d) = Inr (a, r0) \<Longrightarrow>
    play_instruction prog (deliver r0 (pl1 d)) = Inr (b, r1) \<Longrightarrow>
    duet_hist prog d' (s0 @ sent_of r0) (s1 @ sent_of r1)
      (g0 @ taken (pl0 d) a) (g1 @ taken (deliver r0 (pl1 d)) b)"

definition duet_inv :: "instr list \<Rightarrow> duet \<Rightarrow> bool" where
  "duet_inv prog d \<longleftrightarrow> player_inv prog (pl0 d) \<and> player_inv prog (pl1 d)"

section \<open>Properties of the runner\<close>

lemma deliver_fields [simp]:
  "pc (deliver v q) = pc q" "regs (deliver v q) = regs q" "deadlocked (deliver v q) = deadlocked q"
  "finished (deliver v q) = finished q" "inbox (deliver v q) = inbox q @ sent_of v"
  by (simp_all add: deliver_def sent_of_def)

lemma player_inv_deliver [simp]: "player_inv prog (deliver v q) = player_inv prog q"
  by (simp add: player_inv_def pc_ok_def dl_ok_def at_rcv_def)

lemma duet_round_Inr:
  assumes "duet_round prog d = Inr d'"
  obtains a r0 b r1 where "play_instruction prog (pl0 d) = Inr (a, r0)"
    "play_instruction prog (deliver r0 (pl1 d)) = Inr (b, r1)"
    "d' = \<lparr>pl0 = deliver r1 a, pl1 = b, counter = counter d + length (sent_of r1)\<rparr>"
  using assms by (auto simp: duet_round_def sent_of_def split: sum.splits)

lemma duet_inv_init: "prog \<noteq> [] \<Longrightarrow> duet_inv prog duet_init"
  by (simp add: duet_inv_def duet_init_def player_init_def player_inv_def pc_ok_def dl_ok_def)

lemma duet_round_inv:
  assumes "duet_inv prog d" "duet_round prog d = Inr d'"
  shows "duet_inv prog d'"
  using assms(2)
proof (cases rule: duet_round_Inr)
  case (1 a r0 b r1)
  from assms(1) have i0: "player_inv prog (pl0 d)" and i1: "player_inv prog (deliver r0 (pl1 d))"
    by (simp_all add: duet_inv_def)
  have "player_inv prog a" by (rule play_instruction_inv[OF i0 1(1)])
  moreover have "player_inv prog b" by (rule play_instruction_inv[OF i1 1(2)])
  ultimately show ?thesis by (simp add: 1(3) duet_inv_def)
qed

lemma duet_reach_inv: "duet_reach prog d \<Longrightarrow> prog \<noteq> [] \<Longrightarrow> duet_inv prog d"
  by (induction rule: duet_reach.induct) (auto intro: duet_inv_init duet_round_inv)

lemma duet_hist_reach: "duet_hist prog d s0 s1 g0 g1 \<Longrightarrow> duet_reach prog d"
  by (induction rule: duet_hist.induct) (auto intro: duet_reach.intros)

lemma duet_reach_hist: "duet_reach prog d \<Longrightarrow> \<exists>s0 s1 g0 g1. duet_hist prog d s0 s1 g0 g1"
proof (induction rule: duet_reach.induct)
  case reach_init
  show ?case by (blast intro: hist_init)
next
  case (reach_round d d')
  then obtain s0 s1 g0 g1 where h: "duet_hist prog d s0 s1 g0 g1" by blast
  from reach_round.hyps(3) show ?case
  proof (cases rule: duet_round_Inr)
    case (1 a r0 b r1)
    with h reach_round.hyps(2,3) show ?thesis by (blast intro: hist_round)
  qed
qed

text \<open>C3: in every state the loop passes through, a player is finished exactly when
  its program counter lies outside the program.\<close>

theorem duet_reach_halted_iff:
  assumes "duet_reach prog d" "prog \<noteq> []"
  shows "(finished (pl0 d) \<longleftrightarrow> \<not> (0 \<le> pc (pl0 d) \<and> pc (pl0 d) < int (length prog))) \<and>
         (finished (pl1 d) \<longleftrightarrow> \<not> (0 \<le> pc (pl1 d) \<and> pc (pl1 d) < int (length prog)))"
  using duet_reach_inv[OF assms] by (simp add: duet_inv_def player_inv_def pc_ok_def)

text \<open>The runner with send logs has exactly the states of the real runner: adding
  the logs neither adds nor removes behaviour.\<close>

theorem duet_refines_hist:
  "duet_reach prog d \<longleftrightarrow> (\<exists>s0 s1 g0 g1. duet_hist prog d s0 s1 g0 g1)"
  using duet_reach_hist duet_hist_reach by blast

lemma taken_inbox: "suffix (inbox p') (inbox p) \<Longrightarrow> inbox p = taken p p' @ inbox p'"
  by (auto simp: taken_def suffix_def)

lemma hist_conservation:
  "duet_hist prog d s0 s1 g0 g1 \<Longrightarrow>
     s0 = g1 @ inbox (pl1 d) \<and> s1 = g0 @ inbox (pl0 d) \<and> counter d = length s1"
proof (induction rule: duet_hist.induct)
  case hist_init
  show ?case by (simp add: duet_init_def player_init_def)
next
  case (hist_round d s0 s1 g0 g1 d' a r0 b r1)
  from hist_round.hyps(3) show ?case
  proof (cases rule: duet_round_Inr)
    case (1 a' r0' b' r1')
    with hist_round.hyps(4,5) have eq: "a' = a" "r0' = r0" "b' = b" "r1' = r1" by simp_all
    have q1: "inbox (pl1 d) @ sent_of r0 = taken (deliver r0 (pl1 d)) b @ inbox b"
      using taken_inbox[OF play_instruction_inbox[OF hist_round.hyps(5)]] by simp
    have q0: "inbox (pl0 d) = taken (pl0 d) a @ inbox a"
      using taken_inbox[OF play_instruction_inbox[OF hist_round.hyps(4)]] .
    show ?thesis
      using hist_round.IH 1(3) eq q0 q1 by simp
  qed
qed

text \<open>C5: whenever player 1 is marked deadlocked at the end of a round, its queue is
  empty: the flag the stopping test reads is never stale for player 1.\<close>

theorem duet_player1_deadlock_accurate:
  assumes "duet_reach prog d" "prog \<noteq> []" "deadlocked (pl1 d)"
  shows "inbox (pl1 d) = []"
  using assms(1)
proof (cases rule: duet_reach.cases)
  case reach_init
  with assms(3) show ?thesis by (simp add: duet_init_def player_init_def)
next
  case (reach_round d0)
  from reach_round(3) show ?thesis
  proof (cases rule: duet_round_Inr)
    case (1 a r0 b r1)
    have inv: "player_inv prog (deliver r0 (pl1 d0))"
      using duet_reach_inv[OF reach_round(1) assms(2)] by (simp add: duet_inv_def)
    have "deadlocked b" using assms(3) by (simp add: reach_round(2) 1(3))
    then have "inbox b = []" by (rule play_instruction_deadlocked_empty[OF inv 1(2)])
    then show ?thesis by (simp add: reach_round(2) 1(3))
  qed
qed

text \<open>C2: in every state of a run, the values each player sent are exactly the values
  the other player took from its queue followed by the values still queued, in the
  order sent: no value is lost, duplicated or reordered; and the counter is the number
  of values player 1 sent.\<close>

theorem duet_hist_conservation:
  "duet_hist prog d s0 s1 g0 g1 \<Longrightarrow>
     s0 = g1 @ inbox (pl1 d) \<and> s1 = g0 @ inbox (pl0 d) \<and> counter d = length s1"
  by (rule hist_conservation)

lemma reg_default_deliver: "reg_default r (deliver x p) = deliver x (reg_default r p)"
  by (simp add: reg_default_def deliver_def split: operand.split)

text \<open>C4: a \<open>rcv\<close> on an empty queue leaves the counter and the queue as they are,
  gives only the register its default, and marks the player deadlocked; after the peer
  delivers a value, the next turn completes the same \<open>rcv\<close>.\<close>

theorem rcv_waits_then_completes:
  assumes "\<not> finished p" "0 \<le> pc p" "py_index prog (pc p) = Inr (Instr ''rcv'' r v)"
    "inbox p = []" "x \<noteq> PNone"
  shows "\<exists>p'. play_instruction prog p = Inr (p', PNone) \<and> pc p' = pc p \<and> inbox p' = [] \<and>
     deadlocked p' \<and> \<not> finished p' \<and> regs p' = regs (reg_default r p) \<and>
     play_instruction prog (deliver x p') =
       Inr (check_finished prog (p'\<lparr>regs := (regs p')(r \<mapsto> x), pc := pc p + 1, deadlocked := False\<rparr>), PNone)"
proof -
  have rng: "pc p < int (length prog)" using py_index_Inr_nonneg[OF assms(2,3)] by simp
  let ?p' = "(reg_default r p)\<lparr>deadlocked := True\<rparr>"
  have step1: "play_instruction prog p = Inr (?p', PNone)"
    using assms rng by (simp add: play_instruction_def player_exec_rcv p_rcv_def check_finished_def)
  have inb: "inbox ?p' = []" using assms(4) by simp
  have rd: "reg_default r (deliver x ?p') = deliver x ?p'"
    by (simp add: reg_default_deliver reg_default_upd_dl)
  have "player_exec (Instr ''rcv'' r v) (deliver x ?p') =
      Inr ((deliver x ?p')\<lparr>regs := (regs ?p')(r \<mapsto> x), pc := pc p + 1, inbox := [], deadlocked := False\<rparr>, PNone)"
    using assms(5) inb by (simp add: player_exec_rcv p_rcv_def sent_of_def)
  also have "(deliver x ?p')\<lparr>regs := (regs ?p')(r \<mapsto> x), pc := pc p + 1, inbox := [], deadlocked := False\<rparr> =
      ?p'\<lparr>regs := (regs ?p')(r \<mapsto> x), pc := pc p + 1, deadlocked := False\<rparr>"
    using inb by (simp add: deliver_def)
  finally have step2: "play_instruction prog (deliver x ?p') =
       Inr (check_finished prog (?p'\<lparr>regs := (regs ?p')(r \<mapsto> x), pc := pc p + 1, deadlocked := False\<rparr>), PNone)"
    using assms(1,3) rd by (simp add: play_instruction_def)
  show ?thesis
    using step1 step2 assms(1,4) rng by (intro exI[of _ ?p']) (simp add: check_finished_def)
qed

lemma duet_run_reach:
  assumes run: "duet_run prog d = Some r"
  shows "\<forall>d'. r = Inr d' \<longrightarrow> duet_reach prog d \<longrightarrow> \<not> all_done d \<longrightarrow>
           duet_reach prog d' \<and> all_done d'"
proof (rule duet_run.raw_induct[where P = "\<lambda>prog d r. \<forall>d'. r = Inr d' \<longrightarrow> duet_reach prog d \<longrightarrow>
     \<not> all_done d \<longrightarrow> duet_reach prog d' \<and> all_done d'", OF _ run])
  fix f prog d r
  assume IH: "\<And>prog d r. f prog d = Some r \<Longrightarrow> \<forall>d'. r = Inr d' \<longrightarrow> duet_reach prog d \<longrightarrow>
       \<not> all_done d \<longrightarrow> duet_reach prog d' \<and> all_done d'"
    and eq: "(case duet_round prog d of Inl e \<Rightarrow> Some (Inl e)
       | Inr d' \<Rightarrow> if all_done d' then Some (Inr d') else f prog d') = Some r"
  show "\<forall>d'. r = Inr d' \<longrightarrow> duet_reach prog d \<longrightarrow> \<not> all_done d \<longrightarrow> duet_reach prog d' \<and> all_done d'"
  proof (intro allI impI)
    fix d' assume r: "r = Inr d'" and reach: "duet_reach prog d" and nd: "\<not> all_done d"
    show "duet_reach prog d' \<and> all_done d'"
    proof (cases "duet_round prog d")
      case (Inl e)
      with eq r show ?thesis by simp
    next
      case (Inr d1)
      have reach1: "duet_reach prog d1" using reach nd Inr by (rule reach_round)
      show ?thesis
      proof (cases "all_done d1")
        case True
        with eq r Inr reach1 show ?thesis by simp
      next
        case False
        with eq Inr have "f prog d1 = Some r" by simp
        with IH r reach1 False show ?thesis by blast
      qed
    qed
  qed
qed

text \<open>C1: when the pair run returns a count, the count is the number of values
  player 1 sent, and every value each player sent was received by the other or is
  still in its queue, in order.\<close>

theorem duet_play_counts_sends:
  assumes "duet_play prog = Some (Inr n)"
  shows "\<exists>d s0 s1 g0 g1. duet_hist prog d s0 s1 g0 g1 \<and> all_done d \<and> n = length s1 \<and>
     s1 = g0 @ inbox (pl0 d) \<and> s0 = g1 @ inbox (pl1 d)"
proof -
  obtain d where run: "duet_run prog duet_init = Some (Inr d)" and n: "n = counter d"
    using assms by (auto simp: duet_play_def split: option.splits sum.splits)
  have "\<not> all_done duet_init"
    by (simp add: all_done_def player_done_def duet_init_def player_init_def)
  with duet_run_reach[OF run] reach_init have "duet_reach prog d" "all_done d" by auto
  then obtain s0 s1 g0 g1 where "duet_hist prog d s0 s1 g0 g1" using duet_reach_hist by blast
  with \<open>all_done d\<close> n show ?thesis using hist_conservation by blast
qed

lemmas duet_eval = duet_play_def duet_init_def player_init_def duet_round_def play_instruction_def
  player_exec_def player_method_defs reg_default_def check_finished_def deliver_def all_done_def
  player_done_def py_index_def py_setdefault_def py_lookup_def py_mod_def Let_def

end
