(* ===== verification/Maze.thy ===== *)
theory Maze
  imports Prelude
begin

text \<open>
  Day 5, "A Maze of Twisty Trampolines" (\<open>src/code/day5/day5.py\<close>): class
  \<open>maze_searcher\<close>. The fields are the record \<open>maze\<close>; the update rule is a
  parameter \<open>upd\<close>, as the constructor takes it; \<open>step\<close> is \<open>maze_step\<close>; the
  \<open>while\<close> loop of \<open>escape_time\<close> is a \<open>partial_function (option)\<close>. Reading and
  writing the offset list use Python's index rule, negative indices included.
\<close>

record maze =
  original :: "int list"
  jumps :: "int list"
  size :: nat
  loc :: int
  steps :: nat
  escaped :: bool

definition maze_init :: "int list \<Rightarrow> maze" where
  "maze_init xs = \<lparr>original = xs, jumps = xs, size = length xs, loc = 0, steps = 0, escaped = False\<rparr>"

definition update_rules1 :: "int \<Rightarrow> int" where
  "update_rules1 x = x + 1"

definition update_rules2 :: "int \<Rightarrow> int" where
  "update_rules2 x = (if 3 \<le> x then x - 1 else x + 1)"

text \<open>\<open>step\<close>: the jump is taken only when not escaped; the escape test runs every
  time and only looks at the upper end.\<close>

definition maze_step :: "(int \<Rightarrow> int) \<Rightarrow> maze \<Rightarrow> maze py" where
  "maze_step upd m =
     (let r = (if escaped m then Inr m
               else case py_index (jumps m) (loc m) of Inl e \<Rightarrow> Inl e
                 | Inr k \<Rightarrow> (case py_update (jumps m) (loc m) (upd k) of Inl e \<Rightarrow> Inl e
                    | Inr js \<Rightarrow> Inr (m\<lparr>jumps := js, loc := loc m + k, steps := steps m + 1\<rparr>)))
      in case r of Inl e \<Rightarrow> Inl e
         | Inr m' \<Rightarrow> Inr (if int (size m') \<le> loc m' then m'\<lparr>escaped := True\<rparr> else m'))"

partial_function (option) escape_loop :: "(int \<Rightarrow> int) \<Rightarrow> maze \<Rightarrow> maze py option" where
  "escape_loop upd m =
     (if escaped m then Some (Inr m)
      else case maze_step upd m of Inl e \<Rightarrow> Some (Inl e) | Inr m' \<Rightarrow> escape_loop upd m')"

definition reset_maze :: "maze \<Rightarrow> maze" where
  "reset_maze m = m\<lparr>jumps := original m, escaped := False, loc := 0, steps := 0\<rparr>"

text \<open>The method \<open>escape_time\<close> returns the step count and the offsets, and leaves
  the object reset by \<open>reset_maze\<close>; \<open>escape_time\<close> below is one call on a fresh
  \<open>maze_searcher(instructions, upd)\<close>.\<close>

definition escape_time_m :: "(int \<Rightarrow> int) \<Rightarrow> maze \<Rightarrow> ((nat \<times> int list) \<times> maze) py option" where
  "escape_time_m upd m =
     (case escape_loop upd m of None \<Rightarrow> None
      | Some (Inl e) \<Rightarrow> Some (Inl e)
      | Some (Inr m') \<Rightarrow> Some (Inr ((steps m', jumps m'), reset_maze m')))"

definition escape_time :: "(int \<Rightarrow> int) \<Rightarrow> int list \<Rightarrow> (nat \<times> int list) py option" where
  "escape_time upd xs =
     (case escape_time_m upd (maze_init xs) of None \<Rightarrow> None
      | Some (Inl e) \<Rightarrow> Some (Inl e)
      | Some (Inr (r, m)) \<Rightarrow> Some (Inr r))"

text \<open>A rule keeps offsets non-negative and moves a zero offset up.\<close>

definition keeps_nonneg :: "(int \<Rightarrow> int) \<Rightarrow> bool" where
  "keeps_nonneg upd \<longleftrightarrow> (\<forall>x. 0 \<le> x \<longrightarrow> 0 \<le> upd x \<and> (x = 0 \<longrightarrow> 0 < upd x))"

text \<open>The loop's invariant and its measure: twice the distance to the end, plus one
  while the current offset is zero.\<close>

definition maze_ok :: "maze \<Rightarrow> bool" where
  "maze_ok m \<longleftrightarrow> length (jumps m) = size m \<and> 0 \<le> loc m \<and> (\<forall>x \<in> set (jumps m). 0 \<le> x) \<and>
     (\<not> escaped m \<longrightarrow> loc m < int (size m))"

definition maze_measure :: "maze \<Rightarrow> nat" where
  "maze_measure m = nat (2 * (int (size m) - loc m)) + (if jumps m ! nat (loc m) = 0 then 1 else 0)"

section \<open>Properties of the maze\<close>

lemma maze_step_running:
  assumes "maze_ok m" "\<not> escaped m"
  shows "maze_step upd m =
    (let k = jumps m ! nat (loc m);
         m' = m\<lparr>jumps := (jumps m)[nat (loc m) := upd k], loc := loc m + k, steps := steps m + 1\<rparr>
     in Inr (if int (size m') \<le> loc m' then m'\<lparr>escaped := True\<rparr> else m'))"
  using assms by (simp add: maze_step_def maze_ok_def py_simps Let_def)

lemma maze_step_ok:
  assumes "keeps_nonneg upd" "maze_ok m" "\<not> escaped m" "maze_step upd m = Inr m'"
  shows "maze_ok m'"
proof -
  let ?k = "jumps m ! nat (loc m)"
  have k: "0 \<le> ?k" using assms(2,3) by (auto simp: maze_ok_def)
  have "0 \<le> upd ?k" using assms(1) k by (simp add: keeps_nonneg_def)
  then have "\<forall>x \<in> set ((jumps m)[nat (loc m) := upd ?k]). 0 \<le> x"
    using assms(2) by (auto simp: maze_ok_def dest: set_update_subset_insert[THEN subsetD])
  with assms(2,3,4) k show ?thesis
    by (auto simp: maze_step_running maze_ok_def Let_def split: if_splits)
qed

lemma maze_step_measure:
  assumes "keeps_nonneg upd" "maze_ok m" "\<not> escaped m" "maze_step upd m = Inr m'" "\<not> escaped m'"
  shows "maze_measure m' < maze_measure m"
proof -
  let ?k = "jumps m ! nat (loc m)"
  have k: "0 \<le> ?k" and rng: "0 \<le> loc m" "loc m < int (size m)" "length (jumps m) = size m"
    using assms(2,3) by (auto simp: maze_ok_def)
  show ?thesis
  proof (cases "?k = 0")
    case True
    have "0 < upd 0" using assms(1) unfolding keeps_nonneg_def by (metis order_refl)
    then have "0 < upd ?k" using True by simp
    with True assms(3,4,5) rng show ?thesis
      by (auto simp: maze_step_running[OF assms(2,3)] maze_measure_def Let_def split: if_splits)
  next
    case False
    with k assms(3,4,5) rng show ?thesis
      by (auto simp: maze_step_running[OF assms(2,3)] maze_measure_def Let_def split: if_splits)
  qed
qed

lemma escape_loop_returns:
  assumes "keeps_nonneg upd"
  shows "maze_ok m \<Longrightarrow> \<exists>m'. escape_loop upd m = Some (Inr m') \<and> escaped m'"
proof (induction "maze_measure m" arbitrary: m rule: less_induct)
  case less
  show ?case
  proof (cases "escaped m")
    case True
    then show ?thesis by (subst escape_loop.simps) simp
  next
    case False
    obtain m' where step: "maze_step upd m = Inr m'"
      using maze_step_running[OF less.prems False] by (simp add: Let_def)
    have ok: "maze_ok m'" by (rule maze_step_ok[OF assms less.prems False step])
    show ?thesis
    proof (cases "escaped m'")
      case True
      with step False show ?thesis
        by (subst escape_loop.simps, simp, subst escape_loop.simps, simp)
    next
      case esc: False
      have "maze_measure m' < maze_measure m"
        by (rule maze_step_measure[OF assms less.prems False step esc])
      with less.hyps ok obtain m'' where "escape_loop upd m' = Some (Inr m'')" "escaped m''" by blast
      with step False show ?thesis by (subst escape_loop.simps) simp
    qed
  qed
qed

text \<open>C8: with a rule that keeps offsets non-negative and raises a zero offset (both
  rules of the file do), a non-empty maze of non-negative offsets is escaped: the loop
  returns the step count and the offsets.\<close>

theorem escape_time_terminates:
  assumes "keeps_nonneg upd" "xs \<noteq> []" "\<forall>x \<in> set xs. 0 \<le> x"
  shows "\<exists>n ys. escape_time upd xs = Some (Inr (n, ys))"
proof -
  have "maze_ok (maze_init xs)" using assms(2,3) by (simp add: maze_ok_def maze_init_def)
  with escape_loop_returns[OF assms(1)] obtain m' where "escape_loop upd (maze_init xs) = Some (Inr m')"
    by blast
  then show ?thesis by (simp add: escape_time_def escape_time_m_def)
qed

lemma maze_step_fixed:
  "maze_step upd m = Inr m' \<Longrightarrow> original m' = original m \<and> size m' = size m"
  by (auto simp: maze_step_def Let_def split: if_splits sum.splits)

lemma escape_loop_fixed:
  assumes run: "escape_loop upd m = Some r"
  shows "\<forall>m'. r = Inr m' \<longrightarrow> original m' = original m \<and> size m' = size m"
proof (rule escape_loop.raw_induct[where P = "\<lambda>upd m r. \<forall>m'. r = Inr m' \<longrightarrow>
     original m' = original m \<and> size m' = size m", OF _ run])
  fix f upd m r
  assume IH: "\<And>upd m r. f upd m = Some r \<Longrightarrow> \<forall>m'. r = Inr m' \<longrightarrow>
       original m' = original m \<and> size m' = size m"
    and eq: "(if escaped m then Some (Inr m)
      else case maze_step upd m of Inl e \<Rightarrow> Some (Inl e) | Inr m' \<Rightarrow> f upd m') = Some r"
  show "\<forall>m'. r = Inr m' \<longrightarrow> original m' = original m \<and> size m' = size m"
  proof (intro allI impI)
    fix m' assume r: "r = Inr m'"
    show "original m' = original m \<and> size m' = size m"
    proof (cases "escaped m")
      case True
      with eq r show ?thesis by simp
    next
      case False
      then obtain m1 where st: "maze_step upd m = Inr m1" and f: "f upd m1 = Some r"
        using eq r by (auto split: sum.splits)
      show ?thesis using IH[OF f] r maze_step_fixed[OF st] by simp
    qed
  qed
qed

text \<open>C10: a call of \<open>escape_time\<close> on a fresh searcher leaves the object as
  the constructor made it, so the second call of the file's asserts (line 101) sees the
  initial offsets again.\<close>

theorem escape_time_resets:
  "escape_time_m upd (maze_init xs) = Some (Inr (res, m')) \<Longrightarrow> m' = maze_init xs"
  by (auto simp: escape_time_m_def reset_maze_def maze_init_def split: option.splits sum.splits
      dest!: escape_loop_fixed)

lemma keeps_nonneg_rules: "keeps_nonneg update_rules1" "keeps_nonneg update_rules2"
  by (simp_all add: keeps_nonneg_def update_rules1_def update_rules2_def)

lemmas maze_eval = escape_time_def escape_time_m_def maze_init_def maze_step_def py_index_def py_update_def Let_def
  update_rules1_def update_rules2_def

text \<open>The examples of the puzzle and of the file's asserts: 5 steps with the
  first rule; 10 steps with the second, leaving the offsets \<open>2 3 2 3 -1\<close>.\<close>

theorem maze_examples:
  "escape_time update_rules1 [0, 3, 0, 1, -3] = Some (Inr (5, [2, 5, 0, 1, -2])) \<and>
   escape_time update_rules2 [0, 3, 0, 1, -3] = Some (Inr (10, [2, 3, 2, 3, -1]))"
  by (simp add: maze_eval escape_loop.simps)

text \<open>A jump before the first offset does not escape: the location \<open>-1\<close>
  reads and bumps the last offset, and this one-offset maze takes 4 steps where the
  puzzle's rule ("until one leads outside the list") takes 1.\<close>

theorem maze_front_exit_wraps:
  "escape_time update_rules1 [-1] = Some (Inr (4, [3]))"
  by (simp add: maze_eval escape_loop.simps)

end
