(* ===== verification/Registers.thy ===== *)
theory Registers
  imports Prelude
begin

text \<open>
  Day 8, "I Heard You Like Registers" (\<open>src/code/day8/day8.py\<close>). An instruction
  is the dictionary \<open>line_reader\<close> yields, here the record \<open>reg_instr\<close>; the two
  lambdas of \<open>action_map\<close> are the datatype \<open>action\<close>. \<open>eval_conditional\<close> builds
  the string \<open>True if a <op> b else False\<close> and \<open>eval\<close>s it: the model decides
  every token that is a name (\<open>SyntaxError\<close>) or a binary operator followed by
  unary ones (Python's integer semantics, its exceptions included), and leaves the
  rest \<open>Unmodelled\<close>.
  \<open>evaluate_instructions\<close> keeps the registers in a dictionary whose order matters
  only to \<open>max(values.values())\<close>; it is the ordered dictionary of the prelude, in the field \<open>reg_values\<close> (\<open>values\<close> is a command name).
  Since \<open>line_reader\<close> is a generator, parsing a line and running it alternate:
  \<open>evaluate_lines\<close> is that composition.
\<close>

unbundle bit_operations_syntax

datatype action = Inc | Dec

record reg_instr =
  register :: string
  action :: action
  action_amt :: int
  cond_register :: string
  condition :: string
  cond_amt :: int

definition action_map :: "string \<Rightarrow> action py" where
  "action_map a = (if a = ''inc'' then Inr Inc else if a = ''dec'' then Inr Dec else Inl KeyError)"

fun apply_action :: "action \<Rightarrow> int \<Rightarrow> int \<Rightarrow> int" where
  "apply_action Inc x y = x + y"
| "apply_action Dec x y = x - y"

text \<open>One line: the dictionary display evaluates its entries left to right, so the
  first failing one (a missing field, an unknown action, a bad integer) raises. The
  fourth word (\<open>if\<close>) and any words after the seventh are never read.\<close>

definition parse_reg_line :: "string \<Rightarrow> reg_instr py" where
  "parse_reg_line line =
     (let vals = split_ws line in
      case py_index vals 0 of Inl e \<Rightarrow> Inl e | Inr r \<Rightarrow>
      case py_index vals 1 of Inl e \<Rightarrow> Inl e | Inr a \<Rightarrow>
      case action_map a of Inl e \<Rightarrow> Inl e | Inr act \<Rightarrow>
      case py_index vals 2 of Inl e \<Rightarrow> Inl e | Inr n \<Rightarrow>
      case py_int n of Inl e \<Rightarrow> Inl e | Inr amt \<Rightarrow>
      case py_index vals 4 of Inl e \<Rightarrow> Inl e | Inr cr \<Rightarrow>
      case py_index vals 5 of Inl e \<Rightarrow> Inl e | Inr c \<Rightarrow>
      case py_index vals 6 of Inl e \<Rightarrow> Inl e | Inr m \<Rightarrow>
      case py_int m of Inl e \<Rightarrow> Inl e | Inr camt \<Rightarrow>
        Inr \<lparr>register = r, action = act, action_amt = amt, cond_register = cr,
             condition = c, cond_amt = camt\<rparr>)"

text \<open>\<open>eval(" ".join(['True if a', condition, 'b else False']))\<close>, with \<open>a\<close> and
  \<open>b\<close> the two integers. The token \<open>condition\<close> has no whitespace (it comes from
  \<open>str.split()\<close>), and the model decides the string for two classes of tokens:
  \<^item> a token of ASCII letters, digits and \<open>_\<close> other than the operator keywords
    \<open>and\<close>, \<open>or\<close>, \<open>is\<close>, \<open>in\<close> is a name, number or keyword juxtaposed to \<open>a\<close>:
    \<open>SyntaxError\<close>; so is the Python 2 operator \<open><>\<close>;
  \<^item> a binary operator of Python followed by a run of the unary operators
    \<open>+\<close>, \<open>-\<close>, \<open>~\<close> (the tokenizer takes the longest operator first, and no
    operator of Python extends one of these by \<open>+\<close>, \<open>-\<close> or \<open>~\<close>) is
    \<open>a op u(b)\<close>, and the conditional expression returns its truth value.
  Every other token is \<open>Unmodelled\<close>.\<close>

definition unary_chain :: "string \<Rightarrow> bool" where
  "unary_chain u \<longleftrightarrow> (\<forall>c \<in> set u. c \<in> set ''+-~'')"

fun apply_unary :: "string \<Rightarrow> int \<Rightarrow> int" where
  "apply_unary [] x = x"
| "apply_unary (c # u) x = (let y = apply_unary u x in
     if c = CHR ''-'' then - y else if c = CHR ''~'' then - y - 1 else y)"

definition binary_ops :: "string list" where
  "binary_ops = [''**'', ''//'', ''<<'', ''>>'', ''<='', ''>='', ''=='', ''!='', ''<'', ''>'',
     ''+'', ''-'', ''*'', ''/'', ''%'', ''&'', ''|'', ''^'', ''@'', ''and'', ''or'', ''is'', ''in'']"

definition is_name_char :: "char \<Rightarrow> bool" where
  "is_name_char c \<longleftrightarrow> c = CHR ''_'' \<or> is_digit c \<or>
     (65 \<le> (of_char c :: nat) \<and> (of_char c :: nat) \<le> 90) \<or> (97 \<le> (of_char c :: nat) \<and> (of_char c :: nat) \<le> 122)"

text \<open>The truth value of \<open>a op b\<close> on Python integers. \<open>/\<close> is true division,
  correctly rounded to a double: it raises \<open>OverflowError\<close> when the quotient rounds
  to \<open>2^1024\<close> or more, and is \<open>0.0\<close> (false) when it is at most half the least
  subnormal \<open>2^-1074\<close>. A negative power goes through \<open>float.__pow__\<close>, whose
  underflow near \<open>2^-1074\<close> depends on the C library: it is decided away from that
  threshold only. \<open>is\<close> compares object identity, which for equal values is
  guaranteed only for the cached small integers \<open>-5 .. 256\<close>.\<close>

definition py_binop_truth :: "string \<Rightarrow> int \<Rightarrow> int \<Rightarrow> bool py" where
  "py_binop_truth op a b =
     (if op = ''<'' then Inr (a < b) else if op = ''>'' then Inr (a > b)
      else if op = ''<='' then Inr (a \<le> b) else if op = ''>='' then Inr (a \<ge> b)
      else if op = ''=='' then Inr (a = b) else if op = ''!='' then Inr (a \<noteq> b)
      else if op = ''+'' then Inr (a + b \<noteq> 0) else if op = ''-'' then Inr (a - b \<noteq> 0)
      else if op = ''*'' then Inr (a * b \<noteq> 0)
      else if op = ''/'' then
        (if b = 0 then Inl ZeroDivisionError
         else if \<bar>a\<bar> * 2 ^ 1075 \<le> \<bar>b\<bar> then Inr False
         else if (2 ^ 1024 - 2 ^ 970) * \<bar>b\<bar> \<le> \<bar>a\<bar> then Inl OverflowError else Inr True)
      else if op = ''//'' then (if b = 0 then Inl ZeroDivisionError else Inr (a div b \<noteq> 0))
      else if op = ''%'' then (if b = 0 then Inl ZeroDivisionError else Inr (a mod b \<noteq> 0))
      else if op = ''**'' then
        (if 0 \<le> b then Inr (a \<noteq> 0 \<or> b = 0)
         else if a = 0 then Inl ZeroDivisionError
         else if \<bar>a\<bar> ^ nat (- b) \<le> 2 ^ 1070 then Inr True else Inl Unmodelled)
      else if op = ''<<'' then (if b < 0 then Inl ValueError else Inr (a \<noteq> 0))
      else if op = ''>>'' then (if b < 0 then Inl ValueError else Inr (a div 2 ^ nat b \<noteq> 0))
      else if op = ''&'' then Inr (a AND b \<noteq> 0) else if op = ''|'' then Inr (a OR b \<noteq> 0)
      else if op = ''^'' then Inr (a XOR b \<noteq> 0)
      else if op = ''and'' then Inr (a \<noteq> 0 \<and> b \<noteq> 0) else if op = ''or'' then Inr (a \<noteq> 0 \<or> b \<noteq> 0)
      else if op = ''is'' then
        (if a \<noteq> b then Inr False else if -5 \<le> a \<and> a \<le> 256 then Inr True else Inl Unmodelled)
      else Inl TypeError)"

definition eval_conditional :: "int \<Rightarrow> int \<Rightarrow> string \<Rightarrow> bool py" where
  "eval_conditional a b c =
     (if (\<forall>ch \<in> set c. is_name_char ch) \<and> c \<notin> {''and'', ''or'', ''is'', ''in''} \<or> c = ''<>''
      then Inl SyntaxError
      else case find (\<lambda>op. take (length op) c = op \<and> unary_chain (drop (length op) c)) binary_ops of
        None \<Rightarrow> Inl Unmodelled
      | Some op \<Rightarrow> py_binop_truth op a (apply_unary (drop (length op) c) b))"

record reg_state =
  reg_values :: "(string, int) pydict"
  abs_max_val :: int

definition reg_init :: reg_state where
  "reg_init = \<lparr>reg_values = [], abs_max_val = 0\<rparr>"

text \<open>The body of the \<open>for\<close> loop of \<open>evaluate_instructions\<close>.\<close>

definition reg_step :: "reg_state \<Rightarrow> reg_instr \<Rightarrow> reg_state py" where
  "reg_step st ins =
     (let reg1 = register ins;
          vs = d_setdefault (d_setdefault (reg_values st) reg1 0) (cond_register ins) 0
      in case d_lookup vs (cond_register ins) of Inl e \<Rightarrow> Inl e | Inr a \<Rightarrow>
         case eval_conditional a (cond_amt ins) (condition ins) of Inl e \<Rightarrow> Inl e | Inr b \<Rightarrow>
         if b then
           (case d_lookup vs reg1 of Inl e \<Rightarrow> Inl e | Inr x \<Rightarrow>
            let vs' = d_set vs reg1 (apply_action (action ins) x (action_amt ins)) in
            case d_lookup vs' reg1 of Inl e \<Rightarrow> Inl e | Inr y \<Rightarrow>
              Inr \<lparr>reg_values = vs', abs_max_val = (if y > abs_max_val st then y else abs_max_val st)\<rparr>)
         else Inr (st\<lparr>reg_values := vs\<rparr>))"

fun reg_loop :: "reg_state \<Rightarrow> reg_instr list \<Rightarrow> reg_state py" where
  "reg_loop st [] = Inr st"
| "reg_loop st (ins # rest) = (case reg_step st ins of Inl e \<Rightarrow> Inl e | Inr st' \<Rightarrow> reg_loop st' rest)"

definition reg_result :: "reg_state \<Rightarrow> (int \<times> int) py" where
  "reg_result st = (case py_max (map snd (reg_values st)) of Inl e \<Rightarrow> Inl e
     | Inr m \<Rightarrow> Inr (m, abs_max_val st))"

definition evaluate_instructions :: "reg_instr list \<Rightarrow> (int \<times> int) py" where
  "evaluate_instructions instrs =
     (case reg_loop reg_init instrs of Inl e \<Rightarrow> Inl e | Inr st \<Rightarrow> reg_result st)"

text \<open>\<open>evaluate_instructions(line_reader(f))\<close>: each line is parsed when the loop
  asks for it, so an instruction that fails to evaluate raises before a later line
  that fails to parse.\<close>

fun reg_loop_lines :: "reg_state \<Rightarrow> string list \<Rightarrow> reg_state py" where
  "reg_loop_lines st [] = Inr st"
| "reg_loop_lines st (l # ls) = (case parse_reg_line l of Inl e \<Rightarrow> Inl e | Inr ins \<Rightarrow>
     case reg_step st ins of Inl e \<Rightarrow> Inl e | Inr st' \<Rightarrow> reg_loop_lines st' ls)"

definition evaluate_lines :: "string list \<Rightarrow> (int \<times> int) py" where
  "evaluate_lines ls =
     (case reg_loop_lines reg_init ls of Inl e \<Rightarrow> Inl e | Inr st \<Rightarrow> reg_result st)"

fun parse_reg_lines :: "string list \<Rightarrow> reg_instr list py" where
  "parse_reg_lines [] = Inr []"
| "parse_reg_lines (l # ls) = (case parse_reg_line l of Inl e \<Rightarrow> Inl e | Inr ins \<Rightarrow>
     case parse_reg_lines ls of Inl e \<Rightarrow> Inl e | Inr rest \<Rightarrow> Inr (ins # rest))"

section \<open>The puzzle's semantics\<close>

text \<open>The registers as a total function starting at \<open>0\<close>; a condition is one of the
  six comparisons.\<close>

definition valid_cond :: "string \<Rightarrow> bool" where
  "valid_cond c \<longleftrightarrow> c \<in> {''>'', ''<'', ''>='', ''<='', ''=='', ''!=''}"

definition cmp_op :: "string \<Rightarrow> int \<Rightarrow> int \<Rightarrow> bool" where
  "cmp_op c a b = (if c = ''>'' then a > b else if c = ''<'' then a < b
     else if c = ''>='' then a \<ge> b else if c = ''<='' then a \<le> b
     else if c = ''=='' then a = b else a \<noteq> b)"

definition spec_step :: "(string \<Rightarrow> int) \<Rightarrow> reg_instr \<Rightarrow> string \<Rightarrow> int" where
  "spec_step f ins =
     (if cmp_op (condition ins) (f (cond_register ins)) (cond_amt ins)
      then f(register ins := apply_action (action ins) (f (register ins)) (action_amt ins)) else f)"

definition spec_regs :: "reg_instr list \<Rightarrow> string \<Rightarrow> int" where
  "spec_regs instrs = fold (\<lambda>ins f. spec_step f ins) instrs (\<lambda>_. 0)"

definition mentioned :: "reg_instr list \<Rightarrow> string set" where
  "mentioned instrs = (\<Union>ins \<in> set instrs. {register ins, cond_register ins})"

text \<open>The states the loop passes through, the initial one included.\<close>

fun reg_trace :: "reg_state \<Rightarrow> reg_instr list \<Rightarrow> reg_state list py" where
  "reg_trace st [] = Inr [st]"
| "reg_trace st (ins # rest) = (case reg_step st ins of Inl e \<Rightarrow> Inl e | Inr st' \<Rightarrow>
     (case reg_trace st' rest of Inl e \<Rightarrow> Inl e | Inr ss \<Rightarrow> Inr (st # ss)))"

definition held :: "reg_state list \<Rightarrow> int set" where
  "held ss = (\<Union>s \<in> set ss. snd ` set (reg_values s))"

text \<open>The dictionary holds exactly the registers of \<open>S\<close>, with the values of \<open>f\<close>,
  and \<open>f\<close> is \<open>0\<close> elsewhere.\<close>

definition reg_rel :: "(string \<Rightarrow> int) \<Rightarrow> string set \<Rightarrow> reg_state \<Rightarrow> bool" where
  "reg_rel f S st \<longleftrightarrow> map_of (reg_values st) = (\<lambda>k. if k \<in> S then Some (f k) else None) \<and>
     distinct (map fst (reg_values st)) \<and> (\<forall>k. k \<notin> S \<longrightarrow> f k = 0)"

text \<open>The invariant of the loop: the refinement relation, and \<open>abs_max_val\<close> bounds
  the current registers.\<close>

definition reg_inv :: "(string \<Rightarrow> int) \<Rightarrow> string set \<Rightarrow> reg_state \<Rightarrow> bool" where
  "reg_inv f S st \<longleftrightarrow> reg_rel f S st \<and> 0 \<le> abs_max_val st \<and> (\<forall>k \<in> S. f k \<le> abs_max_val st)"

section \<open>Properties of the register machine\<close>

lemma eval_conditional_valid:
  "valid_cond c \<Longrightarrow> eval_conditional a b c = Inr (cmp_op c a b)"
  unfolding valid_cond_def
  by (elim insertE emptyE)
    (simp_all add: eval_conditional_def binary_ops_def py_binop_truth_def unary_chain_def
      is_name_char_def is_digit_def cmp_op_def)

lemma reg_step_refines:
  assumes valid: "valid_cond (condition ins)" and rel: "reg_rel f S st"
  shows "\<exists>st'. reg_step st ins = Inr st' \<and>
    reg_rel (spec_step f ins) (S \<union> {register ins, cond_register ins}) st' \<and>
    abs_max_val st' = (if cmp_op (condition ins) (f (cond_register ins)) (cond_amt ins)
                       then max (abs_max_val st) (spec_step f ins (register ins)) else abs_max_val st)"
proof -
  let ?r = "register ins" and ?cr = "cond_register ins"
  let ?vs = "d_setdefault (d_setdefault (reg_values st) ?r 0) ?cr 0"
  let ?S = "S \<union> {?r, ?cr}"
  have mvs: "map_of ?vs = (\<lambda>k. if k \<in> ?S then Some (f k) else None)"
    using rel by (auto simp: reg_rel_def py_simps fun_eq_iff split: option.split)
  have dvs: "distinct (map fst ?vs)" using rel by (simp add: reg_rel_def py_simps)
  have z: "\<forall>k. k \<notin> ?S \<longrightarrow> f k = 0" using rel by (simp add: reg_rel_def)
  have cr: "d_lookup ?vs ?cr = Inr (f ?cr)" using mvs by (simp add: py_simps)
  show ?thesis
  proof (cases "cmp_op (condition ins) (f ?cr) (cond_amt ins)")
    case True
    let ?y = "apply_action (action ins) (f ?r) (action_amt ins)"
    have r: "d_lookup ?vs ?r = Inr (f ?r)" using mvs by (simp add: py_simps)
    have r': "d_lookup (d_set ?vs ?r ?y) ?r = Inr ?y" by (simp add: py_simps)
    have step: "reg_step st ins = Inr \<lparr>reg_values = d_set ?vs ?r ?y, abs_max_val = max (abs_max_val st) ?y\<rparr>"
      using True cr r r' by (simp add: reg_step_def Let_def eval_conditional_valid[OF valid] max_def)
    have sp: "spec_step f ins = f(?r := ?y)" using True by (simp add: spec_step_def)
    have "reg_rel (f(?r := ?y)) ?S \<lparr>reg_values = d_set ?vs ?r ?y, abs_max_val = max (abs_max_val st) ?y\<rparr>"
      using mvs dvs z by (auto simp: reg_rel_def py_simps fun_eq_iff)
    then show ?thesis using step sp True by simp
  next
    case False
    have step: "reg_step st ins = Inr (st\<lparr>reg_values := ?vs\<rparr>)"
      using False cr by (simp add: reg_step_def Let_def eval_conditional_valid[OF valid])
    have sp: "spec_step f ins = f" using False by (simp add: spec_step_def)
    have "reg_rel f ?S (st\<lparr>reg_values := ?vs\<rparr>)" using mvs dvs z by (simp add: reg_rel_def)
    then show ?thesis using step sp False by simp
  qed
qed

lemma reg_rel_held: "reg_rel f S st \<Longrightarrow> snd ` set (reg_values st) = f ` S"
  by (simp add: reg_rel_def snd_set_distinct_map_of)

lemma reg_step_inv:
  assumes valid: "valid_cond (condition ins)" and inv: "reg_inv f S st"
  shows "\<exists>st'. reg_step st ins = Inr st' \<and> reg_inv (spec_step f ins) (S \<union> {register ins, cond_register ins}) st' \<and>
    abs_max_val st \<le> abs_max_val st' \<and> abs_max_val st' \<in> insert (abs_max_val st) (snd ` set (reg_values st'))"
proof -
  have rel: "reg_rel f S st" using inv by (simp add: reg_inv_def)
  from reg_step_refines[OF valid rel] obtain st' where
    st': "reg_step st ins = Inr st'" and rel': "reg_rel (spec_step f ins) (S \<union> {register ins, cond_register ins}) st'"
    and am: "abs_max_val st' = (if cmp_op (condition ins) (f (cond_register ins)) (cond_amt ins)
                       then max (abs_max_val st) (spec_step f ins (register ins)) else abs_max_val st)"
    by blast
  have held': "snd ` set (reg_values st') = spec_step f ins ` (S \<union> {register ins, cond_register ins})"
    by (rule reg_rel_held[OF rel'])
  have z: "\<forall>k. k \<notin> S \<longrightarrow> f k = 0" using rel by (simp add: reg_rel_def)
  have amle: "abs_max_val st \<le> abs_max_val st'" using am by simp
  have le: "\<forall>k \<in> S \<union> {register ins, cond_register ins}. spec_step f ins k \<le> abs_max_val st'"
  proof
    fix k assume k: "k \<in> S \<union> {register ins, cond_register ins}"
    have fk: "f k \<le> abs_max_val st'"
    proof (cases "k \<in> S")
      case True
      then show ?thesis using inv amle by (auto simp: reg_inv_def)
    next
      case False
      then show ?thesis using inv amle z by (auto simp: reg_inv_def)
    qed
    show "spec_step f ins k \<le> abs_max_val st'"
      using fk am by (auto simp: spec_step_def)
  qed
  have "abs_max_val st' \<in> insert (abs_max_val st) (snd ` set (reg_values st'))"
    using am held' by (auto simp: max_def)
  then show ?thesis using st' rel' le am inv by (auto simp: reg_inv_def)
qed

lemma reg_trace_Cons: "reg_trace st instrs = Inr ss \<Longrightarrow> \<exists>ss'. ss = st # ss'"
  by (cases instrs) (auto split: sum.splits)

lemma held_Cons: "held (st # ss) = snd ` set (reg_values st) \<union> held ss"
  by (simp add: held_def)

lemma reg_loop_inv:
  assumes "\<forall>i \<in> set instrs. valid_cond (condition i)" "reg_inv f S st"
  shows "\<exists>st' ss. reg_loop st instrs = Inr st' \<and> reg_trace st instrs = Inr ss \<and>
    reg_inv (fold (\<lambda>ins f. spec_step f ins) instrs f) (S \<union> mentioned instrs) st' \<and>
    abs_max_val st \<le> abs_max_val st' \<and> abs_max_val st' \<in> insert (abs_max_val st) (held ss) \<and>
    (\<forall>v \<in> held ss. v \<le> abs_max_val st')"
  using assms
proof (induction instrs arbitrary: f S st)
  case Nil
  then have "snd ` set (reg_values st) = f ` S" by (simp add: reg_inv_def reg_rel_held)
  then have "\<forall>v \<in> snd ` set (reg_values st). v \<le> abs_max_val st" using Nil.prems(2)
    by (simp add: reg_inv_def)
  with Nil show ?case by (simp add: mentioned_def held_def)
next
  case (Cons ins rest)
  from reg_step_inv[of ins f S st] Cons.prems obtain st1 where
    st1: "reg_step st ins = Inr st1" and inv1: "reg_inv (spec_step f ins) (S \<union> {register ins, cond_register ins}) st1"
    and le1: "abs_max_val st \<le> abs_max_val st1"
    and in1: "abs_max_val st1 \<in> insert (abs_max_val st) (snd ` set (reg_values st1))"
    by auto
  from Cons.IH[OF _ inv1] Cons.prems(1) obtain st' ss where
    loop: "reg_loop st1 rest = Inr st'" and tr: "reg_trace st1 rest = Inr ss"
    and inv': "reg_inv (fold (\<lambda>ins f. spec_step f ins) rest (spec_step f ins))
                 (S \<union> {register ins, cond_register ins} \<union> mentioned rest) st'"
    and le': "abs_max_val st1 \<le> abs_max_val st'" and in': "abs_max_val st' \<in> insert (abs_max_val st1) (held ss)"
    and all': "\<forall>v \<in> held ss. v \<le> abs_max_val st'"
    by auto
  obtain ss' where ss: "ss = st1 # ss'" using reg_trace_Cons[OF tr] by blast
  have "reg_rel f S st" using Cons.prems(2) by (simp add: reg_inv_def)
  then have "snd ` set (reg_values st) = f ` S" by (rule reg_rel_held)
  then have hst: "\<forall>v \<in> snd ` set (reg_values st). v \<le> abs_max_val st"
    using Cons.prems(2) by (auto simp: reg_inv_def)
  have "S \<union> {register ins, cond_register ins} \<union> mentioned rest = S \<union> mentioned (ins # rest)"
    by (auto simp: mentioned_def)
  moreover have "abs_max_val st' \<in> insert (abs_max_val st) (held (st # ss))"
    using in' in1 unfolding ss held_Cons insert_iff Un_iff by metis
  moreover have "\<forall>v \<in> held (st # ss). v \<le> abs_max_val st'"
  proof
    fix v assume "v \<in> held (st # ss)"
    then consider "v \<in> snd ` set (reg_values st)" | "v \<in> held ss" unfolding held_Cons by blast
    then show "v \<le> abs_max_val st'"
    proof cases
      case 1
      then have "v \<le> abs_max_val st" using hst by blast
      then show ?thesis using le1 le' by linarith
    next
      case 2
      then show ?thesis using all' by blast
    qed
  qed
  ultimately show ?case using st1 loop tr inv' le1 le' by auto
qed


lemma reg_inv_init: "reg_inv (\<lambda>_. 0) {} reg_init"
  by (simp add: reg_inv_def reg_rel_def reg_init_def fun_eq_iff)

lemma finite_held: "finite (held ss)"
  by (simp add: held_def)

lemma reg_run_valid:
  assumes "\<forall>i \<in> set instrs. valid_cond (condition i)"
  shows "\<exists>st ss. reg_loop reg_init instrs = Inr st \<and> reg_trace reg_init instrs = Inr ss \<and>
    reg_rel (spec_regs instrs) (mentioned instrs) st \<and> abs_max_val st = Max (insert 0 (held ss))"
proof -
  from reg_loop_inv[OF assms reg_inv_init] obtain st ss where
    run: "reg_loop reg_init instrs = Inr st" "reg_trace reg_init instrs = Inr ss"
    and inv: "reg_inv (spec_regs instrs) (mentioned instrs) st"
    and mem: "abs_max_val st \<in> insert 0 (held ss)" and all: "\<forall>v \<in> held ss. v \<le> abs_max_val st"
    by (auto simp: spec_regs_def reg_init_def)
  have "abs_max_val st = Max (insert 0 (held ss))"
    using mem all inv by (intro Max_eqI[symmetric]) (auto simp: finite_held reg_inv_def)
  then show ?thesis using run inv by (auto simp: reg_inv_def)
qed

lemma reg_result_Inr:
  assumes "reg_rel f S st" "S \<noteq> {}"
  shows "reg_result st = Inr (Max (f ` S), abs_max_val st)"
proof -
  have h: "snd ` set (reg_values st) = f ` S" by (rule reg_rel_held[OF assms(1)])
  then have "reg_values st \<noteq> []" using assms(2) by auto
  then show ?thesis using h by (simp add: reg_result_def py_max_Inr)
qed

lemma mentioned_nonempty: "instrs \<noteq> [] \<Longrightarrow> mentioned instrs \<noteq> {}"
  by (cases instrs) (auto simp: mentioned_def)

text \<open>C11: on instructions whose conditions are the six comparisons, and at least one
  of them, \<open>evaluate_instructions\<close> returns the largest final value of the
  puzzle's registers (all starting at 0) over the registers the program names, and
  the highest value held in any register in any state of the run, 0 included.\<close>

theorem evaluate_instructions_correct:
  assumes "\<forall>i \<in> set instrs. valid_cond (condition i)" "instrs \<noteq> []"
  shows "\<exists>ss. reg_trace reg_init instrs = Inr ss \<and>
    evaluate_instructions instrs = Inr (Max (spec_regs instrs ` mentioned instrs), Max (insert 0 (held ss)))"
proof -
  from reg_run_valid[OF assms(1)] obtain st ss where
    "reg_loop reg_init instrs = Inr st" "reg_trace reg_init instrs = Inr ss"
    "reg_rel (spec_regs instrs) (mentioned instrs) st" "abs_max_val st = Max (insert 0 (held ss))"
    by blast
  then show ?thesis
    using reg_result_Inr mentioned_nonempty[OF assms(2)] by (auto simp: evaluate_instructions_def)
qed

text \<open>C12: the dictionary refines the puzzle's registers: after the loop it has one
  entry per register the instructions name, holding the value of the puzzle's
  semantics \<open>spec_regs\<close>, and no other entry.\<close>

theorem reg_loop_refines_spec:
  "\<forall>i \<in> set instrs. valid_cond (condition i) \<Longrightarrow>
   \<exists>st. reg_loop reg_init instrs = Inr st \<and> distinct (map fst (reg_values st)) \<and>
     map_of (reg_values st) = (\<lambda>k. if k \<in> mentioned instrs then Some (spec_regs instrs k) else None)"
  by (drule reg_run_valid) (auto simp: reg_rel_def)

lemma reg_loop_append:
  "reg_loop st (xs @ ys) = (case reg_loop st xs of Inl e \<Rightarrow> Inl e | Inr st' \<Rightarrow> reg_loop st' ys)"
  by (induction xs arbitrary: st) (auto split: sum.split)

lemma eval_conditional_name:
  "\<forall>ch \<in> set c. is_name_char ch \<Longrightarrow> c \<notin> {''and'', ''or'', ''is'', ''in''} \<Longrightarrow>
   eval_conditional a b c = Inl SyntaxError"
  by (simp add: eval_conditional_def)

lemma reg_step_name:
  "\<forall>ch \<in> set (condition ins). is_name_char ch \<Longrightarrow> condition ins \<notin> {''and'', ''or'', ''is'', ''in''} \<Longrightarrow>
   reg_step st ins = Inl SyntaxError"
  using d_lookup_d_setdefault[of "d_setdefault (reg_values st) (register ins) 0" "cond_register ins" 0]
  by (auto simp: reg_step_def Let_def eval_conditional_name)

text \<open>C13: when the first instruction whose condition is not one of the six
  comparisons has a name, a number or a keyword other than \<open>and\<close>, \<open>or\<close>, \<open>is\<close>,
  \<open>in\<close> as its condition, \<open>evaluate_instructions\<close> raises \<open>SyntaxError\<close> there,
  whatever follows.\<close>

theorem evaluate_instructions_syntax_error:
  assumes "\<forall>i \<in> set pre. valid_cond (condition i)"
    and "\<forall>ch \<in> set (condition ins). is_name_char ch" "condition ins \<notin> {''and'', ''or'', ''is'', ''in''}"
  shows "evaluate_instructions (pre @ ins # post) = Inl SyntaxError"
proof -
  from reg_run_valid[OF assms(1)] obtain st where "reg_loop reg_init pre = Inr st" by blast
  then show ?thesis
    by (simp add: evaluate_instructions_def reg_loop_append reg_step_name[OF assms(2,3)])
qed

lemma reg_loop_lines_parsed:
  "parse_reg_lines ls = Inr instrs \<Longrightarrow> reg_loop_lines st ls = reg_loop st instrs"
  by (induction ls arbitrary: st instrs) (auto split: sum.splits)

text \<open>When every line parses, running the generator lazily is the same as parsing
  every line first and evaluating the list.\<close>

theorem evaluate_lines_parsed:
  "parse_reg_lines ls = Inr instrs \<Longrightarrow> evaluate_lines ls = evaluate_instructions instrs"
  by (simp add: evaluate_lines_def evaluate_instructions_def reg_loop_lines_parsed)

lemmas reg_eval = parse_reg_line_def py_str_eval py_index_def action_map_def reg_step_def
  eval_conditional_def binary_ops_def py_binop_truth_def unary_chain_def is_name_char_def
  d_setdefault_def d_lookup_def d_set_def reg_result_def py_max_def reg_init_def Let_def

end
