(* ===== verification/KnotHash.thy ===== *)
theory KnotHash
  imports Prelude "HOL-Library.Multiset"
begin

text \<open>
  Day 10, "Knot Hash" (\<open>src/code/day10/day10.py\<close>). \<open>circle_hash\<close> keeps the
  circle, the position and the skip size, here the record \<open>knot\<close>; one pass of its
  \<open>for\<close> loop is \<open>knot_step\<close>, and the two ways of reversing (inside the list, or
  across its end) are \<open>knot_reverse\<close>, written with the slices of the prelude.
  \<open>iterable_xor\<close>, \<open>convert_to_hex\<close> (with Python's \<open>hex\<close>), \<open>densify\<close>,
  \<open>ascii_instructions\<close> and \<open>dense_hash\<close> follow, one definition each. Numbers are
  Python integers, so the circle is an \<open>int list\<close>; characters are 8-bit, so
  \<open>ord\<close> is \<open>of_char\<close>.
\<close>

section \<open>The sparse hash: \<open>circle_hash\<close>\<close>

record knot =
  circle :: "int list"
  pos :: int
  skip_size :: int

definition knot_init :: "int \<Rightarrow> knot" where
  "knot_init cl = \<lparr>circle = [0..cl - 1], pos = 0, skip_size = 0\<rparr>"

text \<open>The reversal of \<open>circle_hash\<close>: when \<open>pos <= max_val\<close> the slice
  \<open>circle[pos:max_val]\<close> is reversed in place; otherwise the tail from \<open>pos\<close> and
  the head up to \<open>max_val\<close> are reversed together and written back.\<close>

definition knot_reverse :: "int list \<Rightarrow> int \<Rightarrow> int \<Rightarrow> int \<Rightarrow> int list" where
  "knot_reverse c p mx cl =
     (if p \<le> mx then py_slice_assign c p mx (rev (py_slice c p mx))
      else let temp = rev (py_slice c (p - cl) (int (length c)) @ py_slice c 0 mx);
               c1 = py_slice_assign c (p - cl) (int (length c)) (py_slice temp 0 (cl - p))
           in py_slice_assign c1 0 mx (py_slice temp (cl - p) (int (length temp))))"

text \<open>A length larger than the circle is skipped, and then neither the position nor
  the skip size changes.\<close>

definition knot_step :: "int \<Rightarrow> knot \<Rightarrow> int \<Rightarrow> knot py" where
  "knot_step cl k l =
     (if l > cl then Inr k
      else case py_mod (pos k + l) cl of Inl e \<Rightarrow> Inl e | Inr mx \<Rightarrow>
           case py_mod (pos k + l + skip_size k) cl of Inl e \<Rightarrow> Inl e | Inr p' \<Rightarrow>
             Inr \<lparr>circle = knot_reverse (circle k) (pos k) mx cl, pos = p', skip_size = skip_size k + 1\<rparr>)"

fun knot_loop :: "int \<Rightarrow> knot \<Rightarrow> int list \<Rightarrow> knot py" where
  "knot_loop cl k [] = Inr k"
| "knot_loop cl k (l # ls) = (case knot_step cl k l of Inl e \<Rightarrow> Inl e | Inr k' \<Rightarrow> knot_loop cl k' ls)"

definition circle_hash :: "int list \<Rightarrow> int \<Rightarrow> int list py" where
  "circle_hash instructions cl =
     (case knot_loop cl (knot_init cl) instructions of Inl e \<Rightarrow> Inl e | Inr k \<Rightarrow> Inr (circle k))"

section \<open>The dense hash\<close>

text \<open>\<open>iterable[0] ^ iterable[1]\<close>, then the rest from index 2 on.\<close>

definition iterable_xor :: "int list \<Rightarrow> int py" where
  "iterable_xor xs =
     (case py_index xs 0 of Inl e \<Rightarrow> Inl e | Inr a \<Rightarrow>
      case py_index xs 1 of Inl e \<Rightarrow> Inl e | Inr b \<Rightarrow>
        Inr (fold (\<lambda>x acc. xor acc x) (drop 2 xs) (xor a b)))"

text \<open>Python's \<open>hex\<close> on a non-negative integer: \<open>0x\<close> and the lower-case digits,
  without leading zeros.\<close>

definition hex_char :: "nat \<Rightarrow> char" where
  "hex_char d = ''0123456789abcdef'' ! d"

fun hex_digits :: "nat \<Rightarrow> string" where
  "hex_digits n = (if n < 16 then [hex_char n] else hex_digits (n div 16) @ [hex_char (n mod 16)])"

declare hex_digits.simps [simp del]

definition py_hex :: "int \<Rightarrow> string" where
  "py_hex n = (if n < 0 then ''-0x'' @ hex_digits (nat (- n)) else ''0x'' @ hex_digits (nat n))"

definition convert_to_hex :: "int \<Rightarrow> string py" where
  "convert_to_hex num =
     (if \<not> num \<ge> 0 then Inl AssertionError
      else let h = drop 2 (py_hex num);
               h' = (if length h < 2 then ''0'' @ h else h)
           in if length h' = 2 then Inr h' else Inl AssertionError)"

text \<open>\<open>densify\<close>: the segments, their xors and their hex strings are generators
  chained into one list comprehension, so segment \<open>i\<close> is xored and converted
  before segment \<open>i + 1\<close> is read. \<open>int(n_elems/length)\<close> is the exact quotient,
  as the assert has just checked that \<open>length\<close> divides \<open>n_elems\<close>.\<close>

definition segments :: "int list \<Rightarrow> int \<Rightarrow> int \<Rightarrow> int list list" where
  "segments xs sz n = map (\<lambda>i. py_slice xs (i * sz) ((i + 1) * sz)) [0..n - 1]"

fun hex_join :: "int list list \<Rightarrow> string py" where
  "hex_join [] = Inr []"
| "hex_join (seg # segs) = (case iterable_xor seg of Inl e \<Rightarrow> Inl e | Inr x \<Rightarrow>
     case convert_to_hex x of Inl e \<Rightarrow> Inl e | Inr h \<Rightarrow>
     case hex_join segs of Inl e \<Rightarrow> Inl e | Inr rest \<Rightarrow> Inr (h @ rest))"

definition densify :: "int list \<Rightarrow> int \<Rightarrow> string py" where
  "densify sparse len =
     (let n = int (length sparse) in
      case py_mod n len of Inl e \<Rightarrow> Inl e | Inr r \<Rightarrow>
        if r \<noteq> 0 then Inl AssertionError else hex_join (segments sparse len (n div len)))"

text \<open>The generator \<open>ascii_instructions\<close>, as the list it yields.\<close>

definition ascii_instructions :: "string \<Rightarrow> int \<Rightarrow> int list" where
  "ascii_instructions seed repetitions =
     concat (replicate (nat repetitions) (map of_char seed @ [17, 31, 73, 47, 23]))"

definition dense_hash :: "string \<Rightarrow> int \<Rightarrow> int \<Rightarrow> int \<Rightarrow> string py" where
  "dense_hash input_str dense_length cl repetitions =
     (case circle_hash (ascii_instructions input_str repetitions) cl of Inl e \<Rightarrow> Inl e
      | Inr sparse \<Rightarrow> densify sparse dense_length)"

section \<open>The puzzle's reversal\<close>

text \<open>Reversing \<open>l\<close> elements from \<open>p\<close> on a circle: rotate \<open>p\<close> to the front,
  reverse the first \<open>l\<close>, rotate back.\<close>

definition spec_reverse :: "'a list \<Rightarrow> nat \<Rightarrow> nat \<Rightarrow> 'a list" where
  "spec_reverse c p l = rotate (length c - p) (rev (take l (rotate p c)) @ drop l (rotate p c))"

text \<open>The puzzle's rounds: the circle, the position and the skip size as naturals.\<close>

definition spec_round :: "nat \<Rightarrow> int list \<times> nat \<times> nat \<Rightarrow> nat \<Rightarrow> int list \<times> nat \<times> nat" where
  "spec_round n st l = (case st of (c, p, s) \<Rightarrow> (spec_reverse c p l, (p + l + s) mod n, s + 1))"

definition spec_hash :: "nat list \<Rightarrow> nat \<Rightarrow> int list" where
  "spec_hash ls n = fst (fold (\<lambda>l st. spec_round n st l) ls ([0..int n - 1], 0, 0))"

text \<open>The invariant of \<open>circle_hash\<close>: the circle keeps its length and its elements,
  and the position stays inside it.\<close>

definition knot_ok :: "int \<Rightarrow> knot \<Rightarrow> bool" where
  "knot_ok cl k \<longleftrightarrow> length (circle k) = nat cl \<and> 0 \<le> pos k \<and> pos k < cl \<and>
     mset (circle k) = mset [0..cl - 1]"

text \<open>The value of a string of lower-case hex digits, as \<open>int(s, 16)\<close> reads it.\<close>

definition hex_val :: "char \<Rightarrow> nat" where
  "hex_val c = length (takeWhile (\<lambda>d. d \<noteq> c) ''0123456789abcdef'')"

definition hex_value :: "string \<Rightarrow> nat" where
  "hex_value s = fold (\<lambda>c acc. 16 * acc + hex_val c) s 0"

section \<open>Properties of the knot hash\<close>

lemma take_mid_drop: "a \<le> b \<Longrightarrow> take a xs @ take (b - a) (drop a xs) @ drop b xs = xs"
  by (metis append.assoc append_take_drop_id le_add_diff_inverse take_add)

lemma knot_reverse_inside:
  assumes "P \<le> M" "M \<le> length c"
  shows "knot_reverse c (int P) (int M) cl = take P c @ rev (take (M - P) (drop P c)) @ drop M c"
  using assms by (simp add: knot_reverse_def py_slice_nat py_slice_assign_nat)

lemma knot_reverse_across:
  assumes "M < P" "P < length c" "cl = int (length c)"
  shows "knot_reverse c (int P) (int M) cl =
    (let temp = rev (drop P c @ take M c)
     in drop (length c - P) temp @ drop M (take P c) @ take (length c - P) temp)"
proof -
  let ?n = "length c"
  define t where "t = rev (drop P c @ take M c)"
  have b: "py_slice_bound (int ?n) (int P - cl) = P" using assms by (simp add: py_simps)
  have s1: "py_slice c (int P - cl) (int ?n) = drop P c"
    using assms b by (simp add: py_slice_def py_simps)
  have s2: "py_slice c 0 (int M) = take M c" using py_slice_nat[of 0 M c] assms by simp
  have lt: "length t = ?n - P + M" using assms by (simp add: t_def)
  have cp: "cl - int P = int (?n - P)" using assms by (simp add: of_nat_diff)
  have s3: "py_slice t 0 (cl - int P) = take (?n - P) t"
    using py_slice_nat[of 0 "?n - P" t] lt cp by simp
  have s4: "py_slice t (cl - int P) (int (length t)) = drop (?n - P) t"
    using py_slice_nat[of "?n - P" "length t" t] lt cp by simp
  have a1: "py_slice_assign c (int P - cl) (int ?n) (take (?n - P) t) = take P c @ take (?n - P) t"
    using assms b by (simp add: py_slice_assign_def py_simps)
  have a2: "py_slice_assign (take P c @ take (?n - P) t) 0 (int M) (drop (?n - P) t) =
      drop (?n - P) t @ drop M (take P c) @ take (?n - P) t"
    using py_slice_assign_nat[of 0 M "take P c @ take (?n - P) t" "drop (?n - P) t"] assms by simp
  have "knot_reverse c (int P) (int M) cl = drop (?n - P) t @ drop M (take P c) @ take (?n - P) t"
    using assms unfolding knot_reverse_def Let_def t_def[symmetric] s1 s2 s3 s4 a1 a2 by simp
  then show ?thesis by (simp add: t_def Let_def)
qed

lemma knot_reverse_mset:
  assumes "length c = nat cl" "0 \<le> p" "p < cl" "0 \<le> mx" "mx < cl"
  shows "mset (knot_reverse c p mx cl) = mset c \<and> length (knot_reverse c p mx cl) = length c"
proof -
  obtain P M where pm: "p = int P" "mx = int M" using assms by (metis nonneg_int_cases)
  have cl: "cl = int (length c)" using assms by simp
  show ?thesis
  proof (cases "P \<le> M")
    case True
    have "mset (take P c @ take (M - P) (drop P c) @ drop M c) = mset c"
      by (subst take_mid_drop[OF True]) (rule refl)
    moreover have Mn: "M \<le> length c" using assms(5) cl pm(2) by simp
    moreover have "knot_reverse c p mx cl = take P c @ rev (take (M - P) (drop P c)) @ drop M c"
      unfolding pm by (rule knot_reverse_inside[OF True Mn])
    ultimately have "mset (knot_reverse c p mx cl) = mset c" by simp
    then show ?thesis using mset_eq_length by blast
  next
    case False
    then have MP: "M < P" by simp
    have Pn: "P < length c" using assms(3) cl pm(1) by simp
    define t where "t = rev (drop P c @ take M c)"
    let ?k = "length c - P"
    have kr: "knot_reverse c p mx cl = drop ?k t @ drop M (take P c) @ take ?k t"
      unfolding pm t_def using knot_reverse_across[OF MP Pn cl] by (simp only: Let_def)
    have mt: "mset t = mset (drop P c) + mset (take M c)" by (simp add: t_def)
    have tk: "mset (take M c) + mset (drop M (take P c)) = mset (take P c)"
      using MP by (metis append_take_drop_id mset_append take_take min_absorb1 less_imp_le)
    have "mset (drop ?k t @ drop M (take P c) @ take ?k t) = mset t + mset (drop M (take P c))"
      by (metis add.commute append_take_drop_id mset_append union_assoc)
    also have "\<dots> = mset (drop P c) + mset (take P c)" using mt tk by (simp add: union_assoc)
    also have "\<dots> = mset c" by (metis add.commute append_take_drop_id mset_append)
    finally have "mset (knot_reverse c p mx cl) = mset c" using kr by simp
    then show ?thesis using mset_eq_length by blast
  qed
qed

lemma knot_reverse_refines:
  assumes "length c = nat cl" "P < length c" "L < length c"
  shows "knot_reverse c (int P) ((int P + int L) mod cl) cl = spec_reverse c P L"
proof -
  let ?n = "length c"
  have cl: "cl = int ?n" using assms by simp
  have rot: "rotate P c = drop P c @ take P c" using assms by (simp add: rotate_drop_take)
  show ?thesis
  proof (cases "P + L < ?n")
    case True
    have m: "(int P + int L) mod cl = int (P + L)" using True cl by simp
    let ?X = "rev (take L (drop P c)) @ drop (P + L) c"
    have tl: "take L (drop P c @ take P c) = take L (drop P c)" and
      dl: "drop L (drop P c @ take P c) = drop (P + L) c @ take P c"
      using True by (simp_all add: add.commute)
    have lx: "length ?X = ?n - P" using True by simp
    have "spec_reverse c P L = rotate (?n - P) (?X @ take P c)"
      unfolding spec_reverse_def rot tl dl by simp
    also have "\<dots> = rotate (length ?X) (?X @ take P c)" using lx by simp
    also have "\<dots> = take P c @ ?X" by (rule rotate_append)
    finally show ?thesis using m True knot_reverse_inside[of P "P + L" c cl] by simp
  next
    case False
    define M where "M = P + L - ?n"
    have MP: "M < P" using False assms by (simp add: M_def)
    have m: "(int P + int L) mod cl = int M"
    proof -
      have "int P + int L = int M + cl" using False cl by (simp add: M_def)
      then have "(int P + int L) mod cl = int M mod cl" by simp
      also have "\<dots> = int M" using MP assms(2) cl by (intro mod_pos_pos_trivial) simp_all
      finally show ?thesis .
    qed
    define t where "t = rev (drop P c @ take M c)"
    have LM: "L - (?n - P) = M" and le: "?n - P \<le> L" using False assms by (simp_all add: M_def)
    have tl: "take L (drop P c @ take P c) = drop P c @ take M c"
      using LM le MP by (simp add: take_append)
    have dl: "drop L (drop P c @ take P c) = drop M (take P c)"
      using LM le by (simp add: drop_append)
    have "length t = ?n - P + M" using MP assms(2) by (simp add: t_def)
    then have lt: "length (take (?n - P) t) = ?n - P" by simp
    have "spec_reverse c P L = rotate (?n - P) (t @ drop M (take P c))"
      unfolding spec_reverse_def rot tl dl t_def by simp
    also have "\<dots> = rotate (length (take (?n - P) t)) (take (?n - P) t @ (drop (?n - P) t @ drop M (take P c)))"
      by (simp only: lt append_assoc[symmetric] append_take_drop_id)
    also have "\<dots> = (drop (?n - P) t @ drop M (take P c)) @ take (?n - P) t" by (rule rotate_append)
    also have "\<dots> = knot_reverse c (int P) (int M) cl"
      by (simp only: knot_reverse_across[OF MP assms(2) cl] Let_def t_def append_assoc)
    finally show ?thesis unfolding m by (rule sym)
  qed
qed

lemma knot_reverse_full_noop:
  assumes "length c = nat cl" "P < length c"
  shows "knot_reverse c (int P) ((int P + cl) mod cl) cl = c"
proof -
  have "(int P + cl) mod cl = int P mod cl" by simp
  also have "\<dots> = int P" using assms by (intro mod_pos_pos_trivial) simp_all
  finally have m: "(int P + cl) mod cl = int P" .
  have "knot_reverse c (int P) (int P) cl = take P c @ rev (take (P - P) (drop P c)) @ drop P c"
    using assms(2) by (intro knot_reverse_inside) simp_all
  then show ?thesis unfolding m by simp
qed

lemma knot_step_ok:
  assumes "knot_ok cl k"
  shows "\<exists>k'. knot_step cl k l = Inr k' \<and> knot_ok cl k'"
proof -
  have cl: "0 < cl" using assms by (simp add: knot_ok_def)
  show ?thesis
  proof (cases "l > cl")
    case True
    then show ?thesis using assms by (simp add: knot_step_def)
  next
    case False
    let ?mx = "(pos k + l) mod cl" and ?p = "(pos k + l + skip_size k) mod cl"
    have r: "mset (knot_reverse (circle k) (pos k) ?mx cl) = mset (circle k) \<and>
        length (knot_reverse (circle k) (pos k) ?mx cl) = length (circle k)"
      using assms cl by (intro knot_reverse_mset) (simp_all add: knot_ok_def)
    have "knot_step cl k l = Inr \<lparr>circle = knot_reverse (circle k) (pos k) ?mx cl, pos = ?p,
        skip_size = skip_size k + 1\<rparr>"
      using False cl by (simp add: knot_step_def py_mod_def)
    moreover have "knot_ok cl \<lparr>circle = knot_reverse (circle k) (pos k) ?mx cl, pos = ?p,
        skip_size = skip_size k + 1\<rparr>"
      using assms r cl by (simp add: knot_ok_def)
    ultimately show ?thesis by blast
  qed
qed

lemma knot_loop_ok: "knot_ok cl k \<Longrightarrow> \<exists>k'. knot_loop cl k ls = Inr k' \<and> knot_ok cl k'"
proof (induction ls arbitrary: k)
  case Nil
  then show ?case by simp
next
  case (Cons l ls)
  from knot_step_ok[OF Cons.prems] obtain k1 where "knot_step cl k l = Inr k1" "knot_ok cl k1" by blast
  with Cons.IH show ?case by simp
qed

lemma knot_init_ok: "0 < cl \<Longrightarrow> knot_ok cl (knot_init cl)"
  by (simp add: knot_ok_def knot_init_def)

lemma circle_hash_permutes:
  "0 < cl \<Longrightarrow> \<exists>c. circle_hash ls cl = Inr c \<and> mset c = mset [0..cl - 1]"
  using knot_loop_ok[OF knot_init_ok, of cl ls] by (auto simp: circle_hash_def knot_ok_def)

lemma knot_step_refines:
  assumes "length c = n" "P < n" "L < n" "cl = int n"
  shows "knot_step cl \<lparr>circle = c, pos = int P, skip_size = int S\<rparr> (int L) =
    Inr \<lparr>circle = spec_reverse c P L, pos = int ((P + L + S) mod n), skip_size = int (S + 1)\<rparr>"
proof -
  have "knot_reverse c (int P) ((int P + int L) mod cl) cl = spec_reverse c P L"
    using assms by (intro knot_reverse_refines) simp_all
  moreover have "(int P + int L + int S) mod cl = int ((P + L + S) mod n)"
    using assms(4) by (simp add: zmod_int)
  ultimately show ?thesis using assms by (simp add: knot_step_def py_mod_def)
qed

lemma knot_loop_refines:
  assumes "\<forall>l \<in> set ls. l < n" "length c = n" "P < n" "cl = int n"
  shows "\<exists>k'. knot_loop cl \<lparr>circle = c, pos = int P, skip_size = int S\<rparr> (map int ls) = Inr k' \<and>
    circle k' = fst (fold (\<lambda>l st. spec_round n st l) ls (c, P, S))"
  using assms
proof (induction ls arbitrary: c P S)
  case Nil
  then show ?case by simp
next
  case (Cons l ls)
  have n: "0 < n" using Cons.prems(3) by simp
  have step: "knot_step cl \<lparr>circle = c, pos = int P, skip_size = int S\<rparr> (int l) =
      Inr \<lparr>circle = spec_reverse c P l, pos = int ((P + l + S) mod n), skip_size = int (S + 1)\<rparr>"
    using Cons.prems by (intro knot_step_refines) simp_all
  have len: "length (spec_reverse c P l) = n" using Cons.prems(2) by (simp add: spec_reverse_def)
  have "(P + l + S) mod n < n" using n by simp
  from Cons.IH[OF _ len this Cons.prems(4), of "S + 1"] Cons.prems(1) obtain k' where
    "knot_loop cl \<lparr>circle = spec_reverse c P l, pos = int ((P + l + S) mod n), skip_size = int (S + 1)\<rparr>
       (map int ls) = Inr k'"
    "circle k' = fst (fold (\<lambda>l st. spec_round n st l) ls (spec_reverse c P l, (P + l + S) mod n, S + 1))"
    by (meson list.set_intros(2))
  then show ?case using step by (simp add: spec_round_def)
qed

text \<open>C15: on lengths smaller than the circle, \<open>circle_hash\<close> computes the puzzle's
  rounds: each length reverses that many elements from the current position, around
  the end of the circle, then the position moves by the length and the skip size.\<close>

theorem circle_hash_refines_spec:
  assumes "\<forall>l \<in> set ls. l < n" "0 < n"
  shows "circle_hash (map int ls) (int n) = Inr (spec_hash ls n)"
proof -
  have "length [0..int n - 1] = n" by simp
  from knot_loop_refines[OF assms(1) this assms(2), of "int n" 0] obtain k' where
    "knot_loop (int n) (knot_init (int n)) (map int ls) = Inr k'"
    "circle k' = fst (fold (\<lambda>l st. spec_round n st l) ls ([0..int n - 1], 0, 0))"
    by (auto simp: knot_init_def)
  then show ?thesis by (simp add: circle_hash_def spec_hash_def)
qed

text \<open>C16: a length equal to the circle size reverses nothing: \<open>max_val\<close> equals
  \<open>pos\<close>, and the slice \<open>circle[pos:pos]\<close> is empty, where the puzzle reverses the
  whole circle.\<close>

theorem knot_full_length_noop:
  assumes "knot_ok cl k"
  shows "\<exists>k'. knot_step cl k cl = Inr k' \<and> circle k' = circle k"
proof -
  obtain P where P: "pos k = int P" using assms by (metis knot_ok_def nonneg_int_cases)
  have "nat (int P) < nat cl" using assms P by (simp only: zless_nat_conj) (simp add: knot_ok_def)
  then have "knot_reverse (circle k) (int P) ((int P + cl) mod cl) cl = circle k"
    using assms by (intro knot_reverse_full_noop) (simp_all add: knot_ok_def)
  then show ?thesis using assms P by (simp add: knot_step_def py_mod_def knot_ok_def)
qed

lemma fold_xor: "fold (\<lambda>x acc. xor acc x) ys (a :: int) = xor a (foldr xor ys 0)"
  by (induction ys arbitrary: a) (simp_all add: xor.assoc)

lemma iterable_xor_Inr: "2 \<le> length xs \<Longrightarrow> iterable_xor xs = Inr (foldr xor xs 0)"
  by (cases xs; cases "tl xs") (simp_all add: iterable_xor_def py_index_def fold_xor xor.assoc)

text \<open>C19: \<open>iterable_xor\<close> is the xor of all the elements of a list of two or more,
  and raises \<open>IndexError\<close> on a shorter one.\<close>

theorem iterable_xor_foldr:
  "iterable_xor xs = (if length xs < 2 then Inl IndexError else Inr (foldr xor xs 0))"
proof (cases "length xs < 2")
  case True
  then show ?thesis by (cases xs; cases "tl xs") (simp_all add: iterable_xor_def py_index_def)
next
  case False
  then show ?thesis by (simp add: iterable_xor_Inr)
qed

lemma hex_digits_length: "1 \<le> length (hex_digits n) \<and> (16 \<le> n \<longrightarrow> 2 \<le> length (hex_digits n))"
proof (induction n rule: hex_digits.induct)
  case (1 n)
  show ?case
  proof (cases "n < 16")
    case True
    then show ?thesis by (subst hex_digits.simps) simp
  next
    case False
    then have "1 \<le> length (hex_digits (n div 16))" using 1 by simp
    then show ?thesis using False unfolding hex_digits.simps[of n] by simp
  qed
qed

lemma convert_to_hex_eq:
  "convert_to_hex num =
     (if 0 \<le> num \<and> num < 256 then Inr [hex_char (nat num div 16), hex_char (nat num mod 16)]
      else Inl AssertionError)"
proof (cases "0 \<le> num")
  case False
  then show ?thesis by (simp add: convert_to_hex_def)
next
  case True
  then obtain n where n: "num = int n" by (metis nonneg_int_cases)
  show ?thesis
  proof (cases "n < 16")
    case True
    then have "hex_digits n = [hex_char n]" by (subst hex_digits.simps) simp
    then show ?thesis using True n by (simp add: convert_to_hex_def py_hex_def hex_char_def)
  next
    case ge: False
    show ?thesis
    proof (cases "n < 256")
      case True
      then have "hex_digits n = [hex_char (n div 16), hex_char (n mod 16)]"
        using ge by (subst hex_digits.simps, subst hex_digits.simps) simp
      then show ?thesis using True n by (simp add: convert_to_hex_def py_hex_def)
    next
      case False
      then have "2 \<le> length (hex_digits (n div 16))" using hex_digits_length[of "n div 16"] by simp
      then have "3 \<le> length (hex_digits n)" using ge by (subst hex_digits.simps) simp
      then show ?thesis using False n by (simp add: convert_to_hex_def py_hex_def)
    qed
  qed
qed

lemma hex_char_mem: "d < 16 \<Longrightarrow> hex_char d \<in> set ''0123456789abcdef''"
  unfolding hex_char_def by (rule nth_mem) simp

lemma hex_val_char: "d < 16 \<Longrightarrow> hex_val (hex_char d) = d"
proof -
  assume "d < 16"
  then have "d \<in> set [0..<16]" by simp
  then show ?thesis by (auto simp: hex_val_def hex_char_def upt_rec)
qed

text \<open>C18: \<open>convert_to_hex\<close> writes every byte as two lower-case hex digits that
  read back as the byte.\<close>

theorem convert_to_hex_roundtrip:
  assumes "0 \<le> num" "num < 256"
  shows "\<exists>h. convert_to_hex num = Inr h \<and> length h = 2 \<and> set h \<subseteq> set ''0123456789abcdef'' \<and>
    int (hex_value h) = num"
proof -
  have "nat num div 16 < 16" using assms by simp
  then have "16 * hex_val (hex_char (nat num div 16)) + hex_val (hex_char (nat num mod 16)) = nat num"
    by (simp add: hex_val_char)
  moreover have "set [hex_char (nat num div 16), hex_char (nat num mod 16)] \<subseteq> set ''0123456789abcdef''"
  proof -
    have "hex_char (nat num div 16) \<in> set ''0123456789abcdef''" using assms by (intro hex_char_mem) simp
    moreover have "hex_char (nat num mod 16) \<in> set ''0123456789abcdef''" by (intro hex_char_mem) simp
    ultimately show ?thesis by (simp only: list.set insert_subset empty_subsetI simp_thms)
  qed
  ultimately show ?thesis using assms by (simp add: convert_to_hex_eq hex_value_def)
qed

lemma xor_byte:
  assumes "0 \<le> a" "a < 256" "0 \<le> b" "b < 256"
  shows "0 \<le> xor a (b :: int) \<and> xor a b < 256"
proof -
  have "take_bit 8 a = a" "take_bit 8 b = b" using assms by (simp_all add: take_bit_int_eq_self)
  then have "xor a b = take_bit 8 (xor a b)" by (metis take_bit_xor)
  moreover have "0 \<le> take_bit 8 (xor a b)" "take_bit 8 (xor a b) < 2 ^ 8"
    by (simp_all only: take_bit_nonnegative take_bit_int_less_exp)
  ultimately show ?thesis by simp
qed

lemma foldr_xor_byte:
  "\<forall>x \<in> set xs. 0 \<le> x \<and> x < 256 \<Longrightarrow> 0 \<le> foldr xor xs (0 :: int) \<and> foldr xor xs 0 < 256"
  by (induction xs) (simp_all add: xor_byte)

lemma hex_join_ok:
  "\<forall>seg \<in> set segs. 2 \<le> length seg \<and> (\<forall>x \<in> set seg. 0 \<le> x \<and> x < 256) \<Longrightarrow>
   \<exists>h. hex_join segs = Inr h \<and> length h = 2 * length segs \<and> set h \<subseteq> set ''0123456789abcdef''"
proof (induction segs)
  case Nil
  then show ?case by simp
next
  case (Cons seg segs)
  let ?x = "foldr xor seg 0"
  have seg: "2 \<le> length seg" "\<forall>x \<in> set seg. 0 \<le> x \<and> x < 256" using Cons.prems by auto
  have x: "0 \<le> ?x" "?x < 256" using foldr_xor_byte[OF seg(2)] by auto
  have xo: "iterable_xor seg = Inr ?x" using seg(1) by (rule iterable_xor_Inr)
  have "nat ?x div 16 < 16" using x by simp
  then have m: "hex_char (nat ?x div 16) \<in> set ''0123456789abcdef''" "hex_char (nat ?x mod 16) \<in> set ''0123456789abcdef''"
    by (simp_all only: hex_char_mem)
  obtain h where h: "hex_join segs = Inr h" "length h = 2 * length segs" "set h \<subseteq> set ''0123456789abcdef''"
    using Cons by auto
  have "set ([hex_char (nat ?x div 16), hex_char (nat ?x mod 16)] @ h) \<subseteq> set ''0123456789abcdef''"
    using m h(3) by (simp only: set_append list.set insert_subset empty_subsetI Un_subset_iff simp_thms)
  then show ?case using xo x h(1,2) by (simp add: convert_to_hex_eq)
qed

lemma segments_256:
  assumes "length c = 256"
  shows "length (segments c 16 16) = 16 \<and> (\<forall>seg \<in> set (segments c 16 16). length seg = 16 \<and> set seg \<subseteq> set c)"
proof -
  have "length (py_slice c (i * 16) ((i + 1) * 16)) = 16 \<and> set (py_slice c (i * 16) ((i + 1) * 16)) \<subseteq> set c"
    if "0 \<le> i" "i \<le> 15" for i
  proof -
    have "py_slice c (i * 16) ((i + 1) * 16) = take 16 (drop (nat (i * 16)) c)"
      using that assms by (simp add: py_slice_def py_slice_bound_def nat_add_distrib nat_mult_distrib)
    moreover have "nat (i * 16) + 16 \<le> length c" using that assms by simp
    ultimately show ?thesis by (auto dest: in_set_takeD in_set_dropD)
  qed
  then show ?thesis by (auto simp: segments_def)
qed

text \<open>C17: the knot hash of any string is 32 lower-case hex digits: no assertion of
  \<open>convert_to_hex\<close> or \<open>densify\<close> fails, whatever the seed and the number of rounds.\<close>

theorem dense_hash_shape:
  "\<exists>h. dense_hash s 16 256 reps = Inr h \<and> length h = 32 \<and> set h \<subseteq> set ''0123456789abcdef''"
proof -
  obtain c where c: "circle_hash (ascii_instructions s reps) 256 = Inr c" "mset c = mset [0..255]"
    using circle_hash_permutes[of 256] by auto
  have len: "length c = 256" using mset_eq_length[OF c(2)] by simp
  have "set c = set [0..255]" using c(2) by (metis set_mset_mset)
  then have el: "\<forall>x \<in> set c. 0 \<le> x \<and> x < 256" by simp
  from segments_256[OF len] el have
    "\<forall>seg \<in> set (segments c 16 16). 2 \<le> length seg \<and> (\<forall>x \<in> set seg. 0 \<le> x \<and> x < 256)" by auto
  from hex_join_ok[OF this] segments_256[OF len] obtain h where
    "hex_join (segments c 16 16) = Inr h" "length h = 32" "set h \<subseteq> set ''0123456789abcdef''" by auto
  then show ?thesis using c(1) len by (simp add: dense_hash_def densify_def py_mod_def)
qed

lemmas knot_eval = circle_hash_def knot_init_def knot_step_def knot_reverse_def py_slice_def
  py_slice_assign_def py_slice_bound_def py_mod_def Let_def upto.simps

end
