(* ===== verification/Disk.thy ===== *)
theory Disk
  imports KnotHash
begin

text \<open>
  Day 14, "Disk Defragmentation" (\<open>src/code/day14/day14.py\<close>). The file starts with
  a copy of the day 10 knot hash: \<open>circle_hash\<close>, \<open>iterable_xor\<close>,
  \<open>convert_to_hex\<close> and \<open>ascii_instructions\<close> are the same text, and are the day 10
  definitions here (\<open>circle_hash14\<close> and so on name them); \<open>densify\<close> differs (it
  takes the number of bytes per row instead of the block size, and builds the list of
  xors before converting them), and \<open>dense_hash\<close> always runs 64 rounds. Then the
  grid: \<open>convert_to_binary\<close>, \<open>binary_hash\<close>, \<open>build_grid\<close>, \<open>grid_counter\<close>,
  and the flood fill \<open>propagate_adjacency\<close> with \<open>region_counter\<close>. The flood fill
  mutates the list of lists \<open>regions\<close>; here it is passed and returned, and the
  recursion (one call per neighbour, in the order of \<open>tests\<close>) is the
  \<open>partial_function (option)\<close> \<open>flood\<close> over the list of cells still to visit.
\<close>

section \<open>The knot hash copy\<close>

definition circle_hash14 :: "int list \<Rightarrow> int \<Rightarrow> int list py" where
  "circle_hash14 = circle_hash"

definition iterable_xor14 :: "int list \<Rightarrow> int py" where
  "iterable_xor14 = iterable_xor"

definition convert_to_hex14 :: "int \<Rightarrow> string py" where
  "convert_to_hex14 = convert_to_hex"

definition ascii_instructions14 :: "string \<Rightarrow> int \<Rightarrow> int list" where
  "ascii_instructions14 = ascii_instructions"

text \<open>\<open>int(length / 2)\<close> truncates towards zero.\<close>

definition densify14 :: "int list \<Rightarrow> int \<Rightarrow> string py" where
  "densify14 sparse len =
     (let n = int (length sparse) in
      case py_mod n len of Inl e \<Rightarrow> Inl e | Inr r \<Rightarrow>
        if r \<noteq> 0 then Inl AssertionError
        else let segment_size = 2 * (n div len);
                 n_segments = (if 0 \<le> len then len div 2 else - ((- len) div 2))
             in case py_map iterable_xor14 (segments sparse segment_size n_segments) of
                  Inl e \<Rightarrow> Inl e
                | Inr xors \<Rightarrow> (case py_map convert_to_hex14 xors of Inl e \<Rightarrow> Inl e
                               | Inr hs \<Rightarrow> Inr (concat hs)))"

definition dense_hash14 :: "string \<Rightarrow> int \<Rightarrow> int \<Rightarrow> string py" where
  "dense_hash14 input_str dense_length cl =
     (case circle_hash14 (ascii_instructions14 input_str 64) cl of Inl e \<Rightarrow> Inl e
      | Inr sparse \<Rightarrow> densify14 sparse dense_length)"

section \<open>Rows of bits\<close>

text \<open>\<open>int(char, scale)\<close> on one character: a digit or a letter of either case, whose
  value must be below the base; \<open>bin(n)[2:]\<close> and \<open>zfill\<close>.\<close>

definition digit36 :: "char \<Rightarrow> nat option" where
  "digit36 c =
     (let k = of_char c :: nat in
      if 48 \<le> k \<and> k \<le> 57 then Some (k - 48)
      else if 97 \<le> k \<and> k \<le> 122 then Some (k - 87)
      else if 65 \<le> k \<and> k \<le> 90 then Some (k - 55) else None)"

fun bin_digits :: "nat \<Rightarrow> string" where
  "bin_digits n = (if n < 2 then [''01'' ! n] else bin_digits (n div 2) @ [''01'' ! (n mod 2)])"

declare bin_digits.simps [simp del]

definition zfill :: "string \<Rightarrow> nat \<Rightarrow> string" where
  "zfill s k = replicate (k - length s) CHR ''0'' @ s"

definition convert_to_binary :: "char \<Rightarrow> nat \<Rightarrow> nat \<Rightarrow> string py" where
  "convert_to_binary c scale num_bits =
     (case digit36 c of None \<Rightarrow> Inl ValueError
      | Some d \<Rightarrow> if d < scale then Inr (zfill (bin_digits d) num_bits) else Inl ValueError)"

definition binary_hash :: "string \<Rightarrow> nat \<Rightarrow> int \<Rightarrow> string py" where
  "binary_hash input_str num_bits dense_length =
     (case dense_hash14 input_str dense_length 256 of Inl e \<Rightarrow> Inl e
      | Inr h \<Rightarrow> (case py_map (\<lambda>c. convert_to_binary c 16 num_bits) h of Inl e \<Rightarrow> Inl e
                  | Inr bs \<Rightarrow> Inr (concat bs)))"

text \<open>\<open>build_grid\<close> yields the rows; \<open>int(size / num_bits)\<close> is the quotient of two
  non-negative numbers here, so it is \<open>div\<close>.\<close>

definition build_grid :: "string \<Rightarrow> nat \<Rightarrow> nat \<Rightarrow> string list py" where
  "build_grid seed num_bits sz =
     (if num_bits = 0 then Inl ZeroDivisionError
      else py_map (\<lambda>i. binary_hash (seed @ ''-'' @ dec_digits i) num_bits (int (sz div num_bits))) [0..<sz])"

definition grid_counter :: "string \<Rightarrow> nat \<Rightarrow> nat \<Rightarrow> nat py" where
  "grid_counter seed num_bits sz =
     (case build_grid seed num_bits sz of Inl e \<Rightarrow> Inl e
      | Inr rows \<Rightarrow> Inr (sum_list (map (\<lambda>row. length (filter (\<lambda>j. j = CHR ''1'') row)) rows)))"

section \<open>Regions: \<open>propagate_adjacency\<close> and \<open>region_counter\<close>\<close>

text \<open>The part of \<open>propagate_adjacency\<close> before its loop: \<open>None\<close> when the square is
  free or already labelled (the early return), otherwise the regions with the square
  labelled and the neighbours of \<open>tests\<close>, in order. \<open>or\<close> reads \<open>regions\<close> only
  for a used square.\<close>

definition visit_cell :: "string list \<Rightarrow> int list list \<Rightarrow> int \<Rightarrow> int \<Rightarrow> int \<Rightarrow>
    (int list list \<times> (int \<times> int) list) option py" where
  "visit_cell grid regions ix iy rn =
     (case py_index grid iy of Inl e \<Rightarrow> Inl e | Inr row \<Rightarrow>
      case py_index row ix of Inl e \<Rightarrow> Inl e | Inr ch \<Rightarrow>
      if ch = CHR ''0'' then Inr None
      else case py_index regions iy of Inl e \<Rightarrow> Inl e | Inr rrow \<Rightarrow>
      case py_index rrow ix of Inl e \<Rightarrow> Inl e | Inr r \<Rightarrow>
      if r \<noteq> 0 then Inr None
      else case py_update rrow ix rn of Inl e \<Rightarrow> Inl e | Inr rrow' \<Rightarrow>
      case py_update regions iy rrow' of Inl e \<Rightarrow> Inl e | Inr regions' \<Rightarrow>
      case py_index grid 0 of Inl e \<Rightarrow> Inl e | Inr row0 \<Rightarrow>
        let tests = (if ix \<noteq> 0 then [(0, -1)] else []) @
                    (if ix \<noteq> int (length row0) - 1 then [(0, 1)] else []) @
                    (if iy \<noteq> 0 then [(-1, 0)] else []) @
                    (if iy \<noteq> int (length grid) - 1 then [(1, 0)] else [])
        in Inr (Some (regions', map (\<lambda>(dy, dx). (ix + dx, iy + dy)) tests)))"

text \<open>\<open>flood grid rn cells regions\<close> runs \<open>propagate_adjacency\<close> on each cell of
  \<open>cells\<close> in turn, each run visiting its own neighbours before the next cell.\<close>

partial_function (option) flood ::
  "string list \<Rightarrow> int \<Rightarrow> (int \<times> int) list \<Rightarrow> int list list \<Rightarrow> int list list py option" where
  "flood grid rn cells regions =
     (case cells of [] \<Rightarrow> Some (Inr regions)
      | (ix, iy) # rest \<Rightarrow>
          (case visit_cell grid regions ix iy rn of
             Inl e \<Rightarrow> Some (Inl e)
           | Inr None \<Rightarrow> flood grid rn rest regions
           | Inr (Some (regions', tests)) \<Rightarrow>
               Option.bind (flood grid rn tests regions')
                 (\<lambda>r. case r of Inl e \<Rightarrow> Some (Inl e) | Inr regions'' \<Rightarrow> flood grid rn rest regions'')))"

definition propagate_adjacency ::
  "string list \<Rightarrow> int list list \<Rightarrow> int \<Rightarrow> int \<Rightarrow> int \<Rightarrow> (int list list \<times> int) py option" where
  "propagate_adjacency grid regions ix iy rn =
     (case visit_cell grid regions ix iy rn of
        Inl e \<Rightarrow> Some (Inl e)
      | Inr None \<Rightarrow> Some (Inr (regions, rn))
      | Inr (Some (regions', tests)) \<Rightarrow>
          map_option (map_sum id (\<lambda>regs. (regs, rn + 1))) (flood grid rn tests regions'))"

fun rc_loop :: "string list \<Rightarrow> (int \<times> int) list \<Rightarrow> int list list \<Rightarrow> int \<Rightarrow> (int list list \<times> int) py option" where
  "rc_loop grid [] regions rn = Some (Inr (regions, rn))"
| "rc_loop grid ((j, i) # cs) regions rn =
     Option.bind (propagate_adjacency grid regions j i rn)
       (\<lambda>r. case r of Inl e \<Rightarrow> Some (Inl e) | Inr (regs, rn') \<Rightarrow> rc_loop grid cs regs rn')"

definition region_counter :: "string list \<Rightarrow> int py option" where
  "region_counter grid =
     (case py_index grid 0 of Inl e \<Rightarrow> Some (Inl e) | Inr row0 \<Rightarrow>
      let n_y = length grid; n_x = length row0;
          regions = replicate n_y (replicate n_x 0)
      in map_option (map_sum id (\<lambda>(_, rn). rn - 1))
           (rc_loop grid [(int j, int i). i \<leftarrow> [0..<n_y], j \<leftarrow> [0..<n_x]] regions 1))"

section \<open>Well-formed grids and the measure of the flood fill\<close>

text \<open>A grid is non-empty with rows as long as the first; \<open>regions\<close> has its shape;
  a cell is inside it; the unlabelled used squares decrease at each labelling.\<close>

definition grid_ok :: "string list \<Rightarrow> bool" where
  "grid_ok grid \<longleftrightarrow> grid \<noteq> [] \<and> (\<forall>row \<in> set grid. length row = length (hd grid))"

definition regions_ok :: "string list \<Rightarrow> int list list \<Rightarrow> bool" where
  "regions_ok grid regions \<longleftrightarrow> length regions = length grid \<and>
     (\<forall>r \<in> set regions. length r = length (hd grid))"

definition cells_ok :: "string list \<Rightarrow> (int \<times> int) list \<Rightarrow> bool" where
  "cells_ok grid cells \<longleftrightarrow> (\<forall>(x, y) \<in> set cells.
     0 \<le> x \<and> x < int (length (hd grid)) \<and> 0 \<le> y \<and> y < int (length grid))"

definition unlabelled :: "string list \<Rightarrow> int list list \<Rightarrow> (nat \<times> nat) set" where
  "unlabelled grid regions = {(x, y). x < length (hd grid) \<and> y < length grid \<and>
     grid ! y ! x \<noteq> CHR ''0'' \<and> regions ! y ! x = 0}"

definition used_squares :: "string list \<Rightarrow> (nat \<times> nat) set" where
  "used_squares grid = {(x, y). x < length (hd grid) \<and> y < length grid \<and> grid ! y ! x \<noteq> CHR ''0''}"

section \<open>Properties of the disk grid\<close>

lemma finite_unlabelled: "finite (unlabelled grid regions)"
  by (rule finite_subset[of _ "{..<length (hd grid)} \<times> {..<length grid}"]) (auto simp: unlabelled_def)

lemma visit_cell_cases:
  assumes g: "grid_ok grid" and r: "regions_ok grid regions" and c: "cells_ok grid [(ix, iy)]"
  obtains (skip) "visit_cell grid regions ix iy rn = Inr None"
  | (label) tests where "visit_cell grid regions ix iy rn =
        Inr (Some ((regions[nat iy := (regions ! nat iy)[nat ix := rn]]), tests))"
      "cells_ok grid tests" "length tests \<le> 4" "(nat ix, nat iy) \<in> unlabelled grid regions"
proof -
  have b: "0 \<le> ix" "ix < int (length (hd grid))" "0 \<le> iy" "iy < int (length grid)"
    using c by (auto simp: cells_ok_def)
  have lr: "length regions = length grid" using r by (simp add: regions_ok_def)
  have m: "grid ! nat iy \<in> set grid" "regions ! nat iy \<in> set regions"
    using b lr by (simp_all add: nat_less_iff)
  have w: "length (grid ! nat iy) = length (hd grid)" "length (regions ! nat iy) = length (hd grid)"
    "length regions = length grid"
    using g r m lr unfolding grid_ok_def regions_ok_def by blast+
  have gi: "py_index grid iy = Inr (grid ! nat iy)" using b by (simp add: py_simps)
  have ci: "py_index (grid ! nat iy) ix = Inr (grid ! nat iy ! nat ix)" using b w by (simp add: py_simps)
  have ri: "py_index regions iy = Inr (regions ! nat iy)" using b w by (simp add: py_simps)
  have rci: "py_index (regions ! nat iy) ix = Inr (regions ! nat iy ! nat ix)" using b w by (simp add: py_simps)
  have ru: "py_update (regions ! nat iy) ix rn = Inr ((regions ! nat iy)[nat ix := rn])"
    using b w by (simp add: py_simps)
  have rru: "py_update regions iy ((regions ! nat iy)[nat ix := rn]) =
      Inr (regions[nat iy := (regions ! nat iy)[nat ix := rn]])"
    using b w by (simp add: py_simps)
  have g0: "py_index grid 0 = Inr (hd grid)" using g by (simp add: grid_ok_def py_simps hd_conv_nth)
  show ?thesis
  proof (cases "grid ! nat iy ! nat ix = CHR ''0'' \<or> regions ! nat iy ! nat ix \<noteq> 0")
    case True
    then show ?thesis by (intro skip) (auto simp: visit_cell_def gi ci ri rci)
  next
    case False
    let ?tests = "(if ix \<noteq> 0 then [(0, -1)] else []) @
                    (if ix \<noteq> int (length (hd grid)) - 1 then [(0, 1)] else []) @
                    (if iy \<noteq> 0 then [(-1, 0)] else []) @
                    (if iy \<noteq> int (length grid) - 1 then [(1, 0)] else [])"
    let ?cells = "map (\<lambda>(dy, dx). (ix + dx, iy + dy)) ?tests :: (int \<times> int) list"
    have "visit_cell grid regions ix iy rn =
        Inr (Some ((regions[nat iy := (regions ! nat iy)[nat ix := rn]]), ?cells))"
      using False by (simp add: visit_cell_def gi ci ri rci ru rru g0 Let_def)
    moreover have "cells_ok grid ?cells" using b by (auto simp: cells_ok_def)
    moreover have "length ?cells \<le> 4" by simp
    moreover have "(nat ix, nat iy) \<in> unlabelled grid regions"
      using False b by (auto simp: unlabelled_def)
    ultimately show ?thesis by (rule label)
  qed
qed

lemma regions_ok_label:
  "regions_ok grid regions \<Longrightarrow> cells_ok grid [(ix, iy)] \<Longrightarrow>
   regions_ok grid (regions[nat iy := (regions ! nat iy)[nat ix := rn]])"
  by (auto simp: regions_ok_def cells_ok_def dest: set_update_subset_insert[THEN subsetD])

lemma unlabelled_label:
  assumes "rn \<noteq> 0" "regions_ok grid regions" "(nat ix, nat iy) \<in> unlabelled grid regions"
  shows "unlabelled grid (regions[nat iy := (regions ! nat iy)[nat ix := rn]]) \<subset> unlabelled grid regions"
  using assms by (auto simp: unlabelled_def regions_ok_def nth_list_update split: if_splits)

lemma flood_terminates:
  assumes g: "grid_ok grid" and rn: "rn \<noteq> 0"
  shows "regions_ok grid regions \<Longrightarrow> cells_ok grid cells \<Longrightarrow>
    \<exists>regs'. flood grid rn cells regions = Some (Inr regs') \<and> regions_ok grid regs' \<and>
      unlabelled grid regs' \<subseteq> unlabelled grid regions"
proof (induction "5 * card (unlabelled grid regions) + length cells" arbitrary: regions cells rule: less_induct)
  case less
  show ?case
  proof (cases cells)
    case Nil
    then show ?thesis using less.prems by (subst flood.simps) simp
  next
    case (Cons c rest)
    obtain ix iy where c: "c = (ix, iy)" by (cases c)
    have c1: "cells_ok grid [(ix, iy)]" and cr: "cells_ok grid rest"
      using less.prems(2) Cons c by (auto simp: cells_ok_def)
    show ?thesis
    proof (cases rule: visit_cell_cases[OF g less.prems(1) c1, of rn])
      case 1
      from less.hyps[of regions rest] less.prems(1) cr Cons obtain regs' where
        "flood grid rn rest regions = Some (Inr regs')" "regions_ok grid regs'"
        "unlabelled grid regs' \<subseteq> unlabelled grid regions" by auto
      then show ?thesis using 1 Cons c by (subst flood.simps) simp
    next
      case (2 tests)
      let ?R = "regions[nat iy := (regions ! nat iy)[nat ix := rn]]"
      have okR: "regions_ok grid ?R" using regions_ok_label[OF less.prems(1) c1] .
      have sub: "unlabelled grid ?R \<subset> unlabelled grid regions"
        using unlabelled_label[OF rn less.prems(1) 2(4)] .
      then have lt: "card (unlabelled grid ?R) < card (unlabelled grid regions)"
        by (rule psubset_card_mono[OF finite_unlabelled])
      from less.hyps[of ?R tests] okR 2(2,3) lt obtain regs1 where
        f1: "flood grid rn tests ?R = Some (Inr regs1)" and ok1: "regions_ok grid regs1"
        and s1: "unlabelled grid regs1 \<subseteq> unlabelled grid ?R" by fastforce
      have "card (unlabelled grid regs1) \<le> card (unlabelled grid ?R)"
        using s1 by (rule card_mono[OF finite_unlabelled])
      with lt Cons have "5 * card (unlabelled grid regs1) + length rest < 5 * card (unlabelled grid regions) + length cells"
        by simp
      from less.hyps[OF this ok1 cr] obtain regs2 where
        f2: "flood grid rn rest regs1 = Some (Inr regs2)" "regions_ok grid regs2"
        "unlabelled grid regs2 \<subseteq> unlabelled grid regs1" by blast
      have "flood grid rn cells regions = Some (Inr regs2)"
        using 2(1) f1 f2(1) Cons c by (subst flood.simps) simp
      then show ?thesis using f2 s1 sub by blast
    qed
  qed
qed

lemma propagate_terminates:
  assumes g: "grid_ok grid" and rn: "rn \<noteq> 0" and r: "regions_ok grid regions" and c: "cells_ok grid [(ix, iy)]"
  shows "\<exists>regs' rn'. propagate_adjacency grid regions ix iy rn = Some (Inr (regs', rn')) \<and>
    regions_ok grid regs' \<and> unlabelled grid regs' \<subseteq> unlabelled grid regions \<and>
    (rn' = rn \<or> (rn' = rn + 1 \<and> unlabelled grid regs' \<subset> unlabelled grid regions))"
proof (cases rule: visit_cell_cases[OF g r c, of rn])
  case 1
  then show ?thesis using r by (simp add: propagate_adjacency_def)
next
  case (2 tests)
  let ?R = "regions[nat iy := (regions ! nat iy)[nat ix := rn]]"
  have okR: "regions_ok grid ?R" using regions_ok_label[OF r c] .
  have sub: "unlabelled grid ?R \<subset> unlabelled grid regions" using unlabelled_label[OF rn r 2(4)] .
  from flood_terminates[OF g rn okR 2(2)] obtain regs' where
    "flood grid rn tests ?R = Some (Inr regs')" "regions_ok grid regs'" "unlabelled grid regs' \<subseteq> unlabelled grid ?R"
    by blast
  then show ?thesis using 2(1) sub by (auto simp: propagate_adjacency_def)
qed

lemma rc_loop_terminates:
  assumes g: "grid_ok grid"
  shows "regions_ok grid regions \<Longrightarrow> cells_ok grid cs \<Longrightarrow> 1 \<le> rn \<Longrightarrow>
    \<exists>regs' rn'. rc_loop grid cs regions rn = Some (Inr (regs', rn')) \<and> rn \<le> rn' \<and>
      rn' + int (card (unlabelled grid regs')) \<le> rn + int (card (unlabelled grid regions))"
proof (induction cs arbitrary: regions rn)
  case Nil
  then show ?case by simp
next
  case (Cons c cs)
  obtain j i where c: "c = (j, i)" by (cases c)
  have c1: "cells_ok grid [(j, i)]" and cr: "cells_ok grid cs" using Cons.prems(2) c by (auto simp: cells_ok_def)
  have rn: "rn \<noteq> 0" using Cons.prems(3) by simp
  from propagate_terminates[OF g rn Cons.prems(1) c1] obtain regs1 rn1 where
    p: "propagate_adjacency grid regions j i rn = Some (Inr (regs1, rn1))" and ok1: "regions_ok grid regs1"
    and s1: "unlabelled grid regs1 \<subseteq> unlabelled grid regions"
    and d: "rn1 = rn \<or> (rn1 = rn + 1 \<and> unlabelled grid regs1 \<subset> unlabelled grid regions)" by blast
  have cm: "card (unlabelled grid regs1) \<le> card (unlabelled grid regions)"
    by (rule card_mono[OF finite_unlabelled s1])
  have "rn1 + int (card (unlabelled grid regs1)) \<le> rn + int (card (unlabelled grid regions))"
  proof (cases "rn1 = rn")
    case True
    then show ?thesis using cm by simp
  next
    case False
    then have "rn1 = rn + 1" "unlabelled grid regs1 \<subset> unlabelled grid regions" using d by auto
    moreover have "card (unlabelled grid regs1) < card (unlabelled grid regions)"
      using calculation(2) by (rule psubset_card_mono[OF finite_unlabelled])
    ultimately show ?thesis by simp
  qed
  moreover have "rn \<le> rn1" using d by auto
  moreover have "1 \<le> rn1" using d Cons.prems(3) by auto
  moreover from Cons.IH[OF ok1 cr this] obtain regs' rn' where
    "rc_loop grid cs regs1 rn1 = Some (Inr (regs', rn'))" "rn1 \<le> rn'"
    "rn' + int (card (unlabelled grid regs')) \<le> rn1 + int (card (unlabelled grid regs1))" by blast
  ultimately show ?case using p c by auto
qed

text \<open>C20: on a non-empty grid whose rows all have the length of the first,
  \<open>region_counter\<close> returns (the recursion of \<open>propagate_adjacency\<close> ends: each
  call that recurses labels a used square that was unlabelled), raises nothing, and
  counts at most as many regions as there are used squares.\<close>

theorem region_counter_terminates:
  assumes "grid_ok grid"
  shows "\<exists>n. region_counter grid = Some (Inr n) \<and> 0 \<le> n \<and> n \<le> int (card (used_squares grid))"
proof -
  let ?w = "length (hd grid)" and ?h = "length grid"
  let ?regions = "replicate ?h (replicate ?w (0::int))"
  let ?cs = "[(int j, int i). i \<leftarrow> [0..<?h], j \<leftarrow> [0..<?w]]"
  have ne: "grid \<noteq> []" using assms by (simp add: grid_ok_def)
  have g0: "py_index grid 0 = Inr (hd grid)" using ne by (simp add: py_simps hd_conv_nth)
  have ok: "regions_ok grid ?regions" by (simp add: regions_ok_def)
  have cs: "cells_ok grid ?cs" by (auto simp: cells_ok_def)
  have u: "unlabelled grid ?regions = used_squares grid" by (auto simp: unlabelled_def used_squares_def)
  from rc_loop_terminates[OF assms ok cs, of 1] u obtain regs' rn' where
    "rc_loop grid ?cs ?regions 1 = Some (Inr (regs', rn'))" "1 \<le> rn'"
    "rn' + int (card (unlabelled grid regs')) \<le> 1 + int (card (used_squares grid))"
    by auto
  then show ?thesis using g0 by (auto simp: region_counter_def Let_def)
qed

lemma py_map_hex_join:
  "\<forall>seg \<in> set segs. 2 \<le> length seg \<Longrightarrow>
   (case py_map iterable_xor14 segs of Inl e \<Rightarrow> Inl e
    | Inr xors \<Rightarrow> (case py_map convert_to_hex14 xors of Inl e \<Rightarrow> Inl e | Inr hs \<Rightarrow> Inr (concat hs))) =
   hex_join segs"
proof (induction segs)
  case Nil
  then show ?case by simp
next
  case (Cons seg segs)
  have x: "iterable_xor14 seg = Inr (foldr xor seg 0)" "iterable_xor seg = Inr (foldr xor seg 0)"
    using Cons.prems by (simp_all add: iterable_xor14_def iterable_xor_Inr)
  have "py_map iterable_xor14 segs = Inr (map (\<lambda>s. foldr xor s 0) segs)"
    using Cons.prems by (intro py_map_Inr) (simp add: iterable_xor14_def iterable_xor_Inr)
  then show ?case
    using Cons x by (auto simp: convert_to_hex14_def split: sum.splits)
qed

text \<open>C21: the day 14 copy of the knot hash, with its own \<open>densify\<close> called with 32
  (bytes per row), computes the day 10 hash with blocks of 16, for every seed.\<close>

theorem dense_hash14_eq:
  "dense_hash14 s 32 256 = dense_hash s 16 256 64"
proof -
  obtain c where c: "circle_hash (ascii_instructions s 64) 256 = Inr c" "mset c = mset [0..255]"
    using circle_hash_permutes[of 256] by auto
  have len: "length c = 256" using mset_eq_length[OF c(2)] by simp
  have "\<forall>seg \<in> set (segments c 16 16). 2 \<le> length seg" using segments_256[OF len] by auto
  then have "densify14 c 32 = densify c 16"
    using len py_map_hex_join by (simp add: densify14_def densify_def py_mod_def)
  then show ?thesis
    using c(1) by (simp add: dense_hash14_def dense_hash_def circle_hash14_def ascii_instructions14_def)
qed

lemmas disk_eval = region_counter_def propagate_adjacency_def visit_cell_def flood.simps
  py_index_def py_update_def Let_def

end
