(* ===== verification/Firewall.thy ===== *)
theory Firewall
  imports Prelude
begin

text \<open>
  Day 13, "Packet Scanners" (\<open>src/code/day13/day13.py\<close>). The classes
  \<open>firewall_layer\<close>, \<open>firewall\<close> and \<open>packet\<close> are the records \<open>layer\<close>,
  \<open>firewall\<close> and \<open>packet\<close>, one function per method; a \<open>packet\<close> holds its firewall,
  and every method that changes the firewall returns the new packet. A layer's
  \<open>range\<close> is \<open>None\<close> until \<open>set_range\<close> (the field is \<open>lrange\<close>: \<open>range\<close> names a
  HOL constant). The \<open>while\<close> loops of \<open>advance_through_firewall\<close>,
  \<open>find_shortest_wait\<close> and \<open>get_wait_time\<close> are \<open>partial_function (option)\<close>:
  the last two need not end. The progress \<open>print\<close> of \<open>find_shortest_wait\<close> is
  output only and is left out.
\<close>

section \<open>\<open>firewall_layer\<close>\<close>

record layer =
  lrange :: "int option"
  scanner_location :: int
  forwards :: bool

definition layer_init :: layer where
  "layer_init = \<lparr>lrange = None, scanner_location = 0, forwards = True\<rparr>"

definition set_range :: "int \<Rightarrow> layer \<Rightarrow> layer" where
  "set_range r l = l\<lparr>lrange := Some r\<rparr>"

definition reset_layer :: "layer \<Rightarrow> layer" where
  "reset_layer l = l\<lparr>forwards := True, scanner_location := 0\<rparr>"

text \<open>\<open>scanner_location + 1 == range\<close> is false when the range is \<open>None\<close>.\<close>

definition advance_scanner :: "layer \<Rightarrow> layer" where
  "advance_scanner l =
     (let loc = (if forwards l then scanner_location l + 1 else scanner_location l - 1);
          fw = (if loc = 0 then True else if Some (loc + 1) = lrange l then False else forwards l)
      in l\<lparr>scanner_location := loc, forwards := fw\<rparr>)"

definition reverse_scanner :: "layer \<Rightarrow> layer" where
  "reverse_scanner l =
     (let fw = (if Some (scanner_location l + 1) = lrange l then True
                else if scanner_location l = 0 then False else forwards l);
          loc = (if fw then scanner_location l - 1 else scanner_location l + 1)
      in l\<lparr>scanner_location := loc, forwards := fw\<rparr>)"

text \<open>\<open>not self.range\<close> holds for \<open>None\<close> and for \<open>0\<close>.\<close>

definition intruder_detected :: "layer \<Rightarrow> int \<Rightarrow> bool" where
  "intruder_detected l location =
     (case lrange l of None \<Rightarrow> False | Some r \<Rightarrow> if r = 0 then False else location = scanner_location l)"

section \<open>\<open>firewall\<close>\<close>

record firewall =
  layers :: "layer list"
  fw_depth :: nat

text \<open>The constructor: \<open>max\<close> of the depths (an empty list raises), one fresh layer
  per depth up to it, then \<open>set_range\<close> on \<open>layers[depth]\<close>, with Python's index
  rule.\<close>

fun set_ranges :: "layer list \<Rightarrow> (int \<times> int) list \<Rightarrow> layer list py" where
  "set_ranges ls [] = Inr ls"
| "set_ranges ls ((d, r) # ps) = (case py_index ls d of Inl e \<Rightarrow> Inl e | Inr l \<Rightarrow>
     case py_update ls d (set_range r l) of Inl e \<Rightarrow> Inl e | Inr ls' \<Rightarrow> set_ranges ls' ps)"

definition firewall_init :: "(int \<times> int) list \<Rightarrow> firewall py" where
  "firewall_init params =
     (case py_max (map fst params) of Inl e \<Rightarrow> Inl e | Inr m \<Rightarrow>
      case set_ranges (replicate (nat (m + 1)) layer_init) params of Inl e \<Rightarrow> Inl e
      | Inr ls \<Rightarrow> Inr \<lparr>layers = ls, fw_depth = length ls\<rparr>)"

definition get_layer_range :: "firewall \<Rightarrow> int \<Rightarrow> int option py" where
  "get_layer_range fw d = (case py_index (layers fw) d of Inl e \<Rightarrow> Inl e | Inr l \<Rightarrow> Inr (lrange l))"

definition fw_advance_time :: "firewall \<Rightarrow> firewall" where
  "fw_advance_time fw = fw\<lparr>layers := map advance_scanner (layers fw)\<rparr>"

definition regress_time :: "firewall \<Rightarrow> firewall" where
  "regress_time fw = fw\<lparr>layers := map reverse_scanner (layers fw)\<rparr>"

definition fw_check_for_detection :: "firewall \<Rightarrow> int \<Rightarrow> int \<Rightarrow> bool py" where
  "fw_check_for_detection fw d location =
     (if d < int (fw_depth fw)
      then (case py_index (layers fw) d of Inl e \<Rightarrow> Inl e | Inr l \<Rightarrow> Inr (intruder_detected l location))
      else Inr False)"

definition reset_firewall :: "firewall \<Rightarrow> firewall" where
  "reset_firewall fw = fw\<lparr>layers := map reset_layer (layers fw)\<rparr>"

section \<open>\<open>packet\<close>\<close>

text \<open>A detection is the dictionary \<open>{'layer': ..., 'range': ...}\<close>.\<close>

record packet =
  packet_depth_loc :: int
  packet_layer_loc :: int
  fwall :: firewall
  packet_detections :: "(int \<times> int option) list"

definition packet_init :: "firewall \<Rightarrow> int \<Rightarrow> packet" where
  "packet_init fw starting_index =
     \<lparr>packet_depth_loc = 0, packet_layer_loc = starting_index, fwall = fw, packet_detections = []\<rparr>"

definition packet_advance_time :: "packet \<Rightarrow> packet" where
  "packet_advance_time p =
     p\<lparr>packet_depth_loc := packet_depth_loc p + 1, fwall := fw_advance_time (fwall p)\<rparr>"

definition reverse_time :: "packet \<Rightarrow> packet" where
  "reverse_time p = p\<lparr>packet_depth_loc := packet_depth_loc p - 1, fwall := regress_time (fwall p)\<rparr>"

definition wait :: "packet \<Rightarrow> packet" where
  "wait p = p\<lparr>fwall := fw_advance_time (fwall p)\<rparr>"

definition packet_check :: "packet \<Rightarrow> (packet \<times> bool) py" where
  "packet_check p =
     (let d = packet_depth_loc p in
      case fw_check_for_detection (fwall p) d (packet_layer_loc p) of Inl e \<Rightarrow> Inl e
      | Inr detected \<Rightarrow>
          if detected then
            (case get_layer_range (fwall p) d of Inl e \<Rightarrow> Inl e
             | Inr r \<Rightarrow> Inr (p\<lparr>packet_detections := packet_detections p @ [(d, r)]\<rparr>, True))
          else Inr (p, False))"

definition packet_reset :: "packet \<Rightarrow> packet" where
  "packet_reset p =
     p\<lparr>packet_detections := [], packet_depth_loc := 0, fwall := reset_firewall (fwall p)\<rparr>"

partial_function (option) advance_through_firewall :: "packet \<Rightarrow> packet py option" where
  "advance_through_firewall p =
     (if packet_depth_loc p < int (fw_depth (fwall p)) then
        (case packet_check p of Inl e \<Rightarrow> Some (Inl e)
         | Inr (p', _) \<Rightarrow> advance_through_firewall (packet_advance_time p'))
      else Some (Inr p))"

text \<open>\<open>detec['layer'] * detec['range']\<close>: a \<open>None\<close> range would raise
  \<open>TypeError\<close>.\<close>

definition severity_of :: "(int \<times> int option) list \<Rightarrow> int py" where
  "severity_of ds =
     (case py_map (\<lambda>(d, r). case r of None \<Rightarrow> Inl TypeError | Some k \<Rightarrow> Inr (d * k)) ds of
        Inl e \<Rightarrow> Inl e | Inr xs \<Rightarrow> Inr (sum_list xs))"

definition get_packet_trip_severity :: "packet \<Rightarrow> int py option" where
  "get_packet_trip_severity p =
     (case advance_through_firewall p of None \<Rightarrow> None | Some (Inl e) \<Rightarrow> Some (Inl e)
      | Some (Inr p') \<Rightarrow> Some (severity_of (packet_detections p')))"

text \<open>The inner loop of \<open>find_shortest_wait\<close>: a detection counts only when
  \<open>packet_depth_loc > 0\<close>, and \<open>check_for_detection\<close> runs (and records) before that
  test.\<close>

partial_function (option) fsw_inner :: "packet \<Rightarrow> (packet \<times> bool) py option" where
  "fsw_inner p =
     (if packet_depth_loc p < int (fw_depth (fwall p)) then
        (case packet_check p of Inl e \<Rightarrow> Some (Inl e)
         | Inr (p', det) \<Rightarrow>
             if det \<and> packet_depth_loc p' > 0 then Some (Inr (p', True))
             else fsw_inner (packet_advance_time p'))
      else Some (Inr (p, False)))"

partial_function (option) fsw_loop :: "nat \<Rightarrow> packet \<Rightarrow> nat py option" where
  "fsw_loop wait_counter p =
     Option.bind (fsw_inner p)
       (\<lambda>r. case r of Inl e \<Rightarrow> Some (Inl e)
          | Inr (p', detected) \<Rightarrow>
              if \<not> detected then Some (Inr wait_counter)
              else fsw_loop (wait_counter + 1) ((wait ^^ (wait_counter + 1)) (packet_reset p')))"

definition find_shortest_wait :: "packet \<Rightarrow> nat py option" where
  "find_shortest_wait p = fsw_loop 0 (packet_reset p)"

section \<open>\<open>get_wait_time\<close>\<close>

text \<open>The \<open>for\<close> loop counts the layers before the first one whose scanner is at the
  top at time \<open>w + layer\<close>; \<open>%\<close> by a cycle time \<open>0\<close> (range 1) raises.\<close>

fun first_hit :: "(int \<times> int \<times> int) list \<Rightarrow> int \<Rightarrow> nat py" where
  "first_hit [] w = Inr 0"
| "first_hit ((l, width, cycle_time) # ps) w =
     (case py_mod (w + l) cycle_time of Inl e \<Rightarrow> Inl e
      | Inr m \<Rightarrow> if m = 0 then Inr 0 else (case first_hit ps w of Inl e \<Rightarrow> Inl e | Inr i \<Rightarrow> Inr (Suc i)))"

partial_function (option) wait_loop :: "(int \<times> int \<times> int) list \<Rightarrow> int \<Rightarrow> int py option" where
  "wait_loop params w =
     (case first_hit params w of Inl e \<Rightarrow> Some (Inl e)
      | Inr i \<Rightarrow> if i = length params then Some (Inr w) else wait_loop params (w + 1))"

definition get_wait_time :: "(int \<times> int) list \<Rightarrow> int py option" where
  "get_wait_time firewall_parameters =
     wait_loop (map (\<lambda>(l, width). (l, width, 2 * (width - 1))) firewall_parameters) 0"

section \<open>Specification\<close>

text \<open>What the two answers mean. A scanner of range \<open>r \<ge> 2\<close> is at the top at
  the times divisible by \<open>2 * (r - 1)\<close>; the packet leaving at time \<open>w\<close> reaches
  depth \<open>d\<close> at time \<open>w + d\<close>, so \<open>caught params w\<close> says some layer catches it,
  and the severity of leaving at once is the sum of \<open>d * r\<close> over the layers
  with \<open>d mod (2 * (r - 1)) = 0\<close> (\<open>spec_severity\<close>). \<open>layer_hit\<close> and
  \<open>cycle_nz\<close> read the triples of \<open>get_wait_time\<close>; \<open>det_at L j\<close> is the check of
  \<open>advance_through_firewall\<close> at depth \<open>j\<close>, after \<open>j\<close> ticks.\<close>

fun layer_hit :: "int \<times> int \<times> int \<Rightarrow> int \<Rightarrow> bool" where
  "layer_hit (l, width, c) w \<longleftrightarrow> (w + l) mod c = 0"

fun scanner_top :: "int \<times> int \<Rightarrow> int \<Rightarrow> bool" where
  "scanner_top (l, width) w \<longleftrightarrow> (w + l) mod (2 * (width - 1)) = 0"

definition caught :: "(int \<times> int) list \<Rightarrow> int \<Rightarrow> bool" where
  "caught params w \<longleftrightarrow> (\<exists>p \<in> set params. scanner_top p w)"

declare layer_hit.simps [simp del] scanner_top.simps [simp del]

fun cycle_nz :: "int \<times> int \<times> int \<Rightarrow> bool" where
  "cycle_nz (l, width, c) \<longleftrightarrow> c \<noteq> 0"

definition phase :: "int \<Rightarrow> nat \<Rightarrow> int" where
  "phase r n = int n mod (2 * (r - 1))"

definition det_at :: "layer list \<Rightarrow> nat \<Rightarrow> bool" where
  "det_at L j \<longleftrightarrow> intruder_detected ((advance_scanner ^^ j) (L ! j)) 0"

text \<open>\<open>det_wait L w j\<close> is the check of \<open>find_shortest_wait\<close> at depth \<open>j\<close> after a
  delay of \<open>w\<close>, and \<open>caught_after L w\<close> says that a layer of depth \<open>j > 0\<close> detects
  the packet leaving after \<open>w\<close> ticks.\<close>

definition det_wait :: "layer list \<Rightarrow> nat \<Rightarrow> nat \<Rightarrow> bool" where
  "det_wait L w j \<longleftrightarrow> intruder_detected ((advance_scanner ^^ (w + j)) (L ! j)) 0"

definition caught_after :: "layer list \<Rightarrow> nat \<Rightarrow> bool" where
  "caught_after L w \<longleftrightarrow> (\<exists>j < length L. 0 < j \<and> det_wait L w j)"

definition spec_severity :: "(int \<times> int) list \<Rightarrow> int" where
  "spec_severity params = sum_list (map (\<lambda>(d, r). if d mod (2 * (r - 1)) = 0 then d * r else 0) params)"

section \<open>Lemmas\<close>

lemmas fw_eval = firewall_init_def py_max_def layer_init_def set_range_def py_index_def py_update_def
  packet_init_def get_packet_trip_severity_def advance_through_firewall.simps packet_check_def
  fw_check_for_detection_def intruder_detected_def get_layer_range_def packet_advance_time_def
  fw_advance_time_def advance_scanner_def severity_of_def Let_def
  find_shortest_wait_def fsw_loop.simps fsw_inner.simps packet_reset_def reset_firewall_def reset_layer_def
  get_wait_time_def wait_loop.simps py_mod_def

lemma first_hit_ok:
  "\<forall>p \<in> set ps. cycle_nz p \<Longrightarrow>
   \<exists>i. first_hit ps w = Inr i \<and> (i = length ps \<longleftrightarrow> \<not> (\<exists>p \<in> set ps. layer_hit p w))"
proof (induction ps)
  case Nil
  then show ?case by simp
next
  case (Cons p ps)
  obtain l width c where p: "p = (l, width, c)" by (cases p)
  from Cons obtain i where i: "first_hit ps w = Inr i" "i = length ps \<longleftrightarrow> \<not> (\<exists>p \<in> set ps. layer_hit p w)"
    by auto
  have "c \<noteq> 0" using Cons.prems p by simp
  then show ?case using i p by (auto simp: py_mod_def layer_hit.simps)
qed

lemma wait_loop_least:
  assumes nz: "\<forall>p \<in> set ps. cycle_nz p" and free: "\<not> (\<exists>p \<in> set ps. layer_hit p w0)"
  shows "w \<le> w0 \<Longrightarrow> \<exists>w'. wait_loop ps w = Some (Inr w') \<and> w \<le> w' \<and> w' \<le> w0 \<and>
    \<not> (\<exists>p \<in> set ps. layer_hit p w') \<and> (\<forall>v. w \<le> v \<and> v < w' \<longrightarrow> (\<exists>p \<in> set ps. layer_hit p v))"
proof (induction "nat (w0 - w)" arbitrary: w rule: less_induct)
  case less
  from first_hit_ok[OF nz, of w] obtain i where
    fh: "first_hit ps w = Inr i" and iff: "i = length ps \<longleftrightarrow> \<not> (\<exists>p \<in> set ps. layer_hit p w)"
    by blast
  show ?case
  proof (cases "i = length ps")
    case True
    then show ?thesis using fh iff less.prems by (subst wait_loop.simps) auto
  next
    case False
    then have hit: "\<exists>p \<in> set ps. layer_hit p w" using iff by blast
    then have "w \<noteq> w0" using free by blast
    then have lt: "w + 1 \<le> w0" using less.prems by simp
    from less.hyps[of "w + 1"] lt obtain w' where
      w': "wait_loop ps (w + 1) = Some (Inr w')" "w + 1 \<le> w'" "w' \<le> w0"
      "\<not> (\<exists>p \<in> set ps. layer_hit p w')"
      and all: "\<forall>v. w + 1 \<le> v \<and> v < w' \<longrightarrow> (\<exists>p \<in> set ps. layer_hit p v)"
      by auto
    have "\<forall>v. w \<le> v \<and> v < w' \<longrightarrow> (\<exists>p \<in> set ps. layer_hit p v)"
    proof (intro allI impI)
      fix v assume v: "w \<le> v \<and> v < w'"
      show "\<exists>p \<in> set ps. layer_hit p v"
      proof (cases "v = w")
        case True
        then show ?thesis using hit by simp
      next
        case False
        then show ?thesis using v all by simp
      qed
    qed
    then show ?thesis using fh False w' by (subst wait_loop.simps) auto
  qed
qed

text \<open>C23 (liveness of \<open>get_wait_time\<close>): when every range is at least 2 and some
  delay \<open>w0 \<ge> 0\<close> lets the packet through, the \<open>while True\<close> loop stops, at the least
  delay that is not caught, which is at most \<open>w0\<close>.\<close>

theorem get_wait_time_least:
  assumes "\<forall>(l, width) \<in> set params. 2 \<le> width" "0 \<le> w0" "\<not> caught params w0"
  shows "\<exists>w. get_wait_time params = Some (Inr w) \<and> 0 \<le> w \<and> w \<le> w0 \<and> \<not> caught params w \<and>
    (\<forall>v. 0 \<le> v \<and> v < w \<longrightarrow> caught params v)"
proof -
  let ?ps = "map (\<lambda>(l, width). (l, width, 2 * (width - 1))) params"
  have nz: "\<forall>p \<in> set ?ps. cycle_nz p" using assms(1) by auto
  have c: "caught params v \<longleftrightarrow> (\<exists>p \<in> set ?ps. layer_hit p v)" for v
    by (force simp: caught_def layer_hit.simps scanner_top.simps)
  have free: "\<not> (\<exists>p \<in> set ?ps. layer_hit p w0)" using assms(3) c by blast
  from wait_loop_least[OF nz free assms(2)] show ?thesis
    unfolding get_wait_time_def c by blast
qed

lemma advance_phase:
  assumes r: "2 \<le> r" "lrange l = Some r" and m: "0 \<le> m" "m < 2 * (r - 1)"
    and loc: "scanner_location l = (if m < r then m else 2 * (r - 1) - m)" and fw: "forwards l = (m < r - 1)"
  shows "scanner_location (advance_scanner l) =
           (if (m + 1) mod (2 * (r - 1)) < r then (m + 1) mod (2 * (r - 1)) else 2 * (r - 1) - (m + 1) mod (2 * (r - 1))) \<and>
         forwards (advance_scanner l) = ((m + 1) mod (2 * (r - 1)) < r - 1) \<and> lrange (advance_scanner l) = Some r"
proof (cases "m + 1 = 2 * (r - 1)")
  case True
  then have md: "(m + 1) mod (2 * (r - 1)) = 0" by (simp only: True mod_self)
  have l1: "scanner_location l = 1" using loc True r(1) by auto
  have f1: "\<not> forwards l" using fw True r(1) by simp
  show ?thesis unfolding md using l1 f1 r by (simp add: advance_scanner_def Let_def)
next
  case False
  then have md: "(m + 1) mod (2 * (r - 1)) = m + 1" using m by (intro mod_pos_pos_trivial) simp_all
  show ?thesis
  proof (cases "m < r - 1")
    case True
    then show ?thesis using assms md by (auto simp: advance_scanner_def Let_def)
  next
    case False
    then show ?thesis using assms md \<open>m + 1 \<noteq> 2 * (r - 1)\<close> by (auto simp: advance_scanner_def Let_def)
  qed
qed

lemma scanner_iter:
  assumes "2 \<le> r" "lrange l = Some r" "scanner_location l = 0" "forwards l"
  shows "scanner_location ((advance_scanner ^^ n) l) =
           (if phase r n < r then phase r n else 2 * (r - 1) - phase r n) \<and>
         forwards ((advance_scanner ^^ n) l) = (phase r n < r - 1) \<and> lrange ((advance_scanner ^^ n) l) = Some r"
proof (induction n)
  case 0
  then show ?case using assms by (simp add: phase_def)
next
  case (Suc n)
  have m: "0 \<le> phase r n" "phase r n < 2 * (r - 1)" using assms(1) by (simp_all add: phase_def)
  have "phase r (Suc n) = (phase r n + 1) mod (2 * (r - 1))"
    by (metis add.commute mod_add_left_eq of_nat_Suc phase_def)
  then show ?case using advance_phase[OF assms(1) _ m] Suc by simp
qed

lemma scanner_top_iff:
  assumes "2 \<le> r" "lrange l = Some r" "scanner_location l = 0" "forwards l"
  shows "intruder_detected ((advance_scanner ^^ n) l) 0 \<longleftrightarrow> int n mod (2 * (r - 1)) = 0"
proof -
  have b: "0 \<le> int n mod (2 * (r - 1))" "int n mod (2 * (r - 1)) < 2 * (r - 1)" using assms(1) by simp_all
  have it: "scanner_location ((advance_scanner ^^ n) l) =
      (if int n mod (2 * (r - 1)) < r then int n mod (2 * (r - 1)) else 2 * (r - 1) - int n mod (2 * (r - 1)))"
    "lrange ((advance_scanner ^^ n) l) = Some r"
    using scanner_iter[OF assms, of n] by (simp_all add: phase_def)
  show ?thesis
  proof (cases "int n mod (2 * (r - 1)) < r")
    case True
    then show ?thesis using it assms(1) by (simp add: intruder_detected_def)
  next
    case False
    then have "scanner_location ((advance_scanner ^^ n) l) = 2 * (r - 1) - int n mod (2 * (r - 1))"
      using it(1) by simp
    then have "scanner_location ((advance_scanner ^^ n) l) \<noteq> 0" using b(2) by linarith
    moreover have "int n mod (2 * (r - 1)) \<noteq> 0" using False assms(1) by linarith
    ultimately show ?thesis using it(2) assms(1) by (simp add: intruder_detected_def)
  qed
qed

lemma lrange_funpow [simp]: "lrange ((advance_scanner ^^ n) l) = lrange l"
  by (induction n) (simp_all add: advance_scanner_def Let_def)

lemma advance_through_detections:
  assumes "length L = N" "packet_layer_loc p = 0"
  shows "fw_depth (fwall p) = N \<Longrightarrow> layers (fwall p) = map (advance_scanner ^^ k) L \<Longrightarrow>
    packet_depth_loc p = int k \<Longrightarrow> k \<le> N \<Longrightarrow>
    \<exists>p'. advance_through_firewall p = Some (Inr p') \<and>
      packet_detections p' = packet_detections p @ map (\<lambda>j. (int j, lrange (L ! j))) (filter (det_at L) [k..<N])"
  using assms(2)
proof (induction "N - k" arbitrary: p k rule: less_induct)
  case less
  show ?case
  proof (cases "k < N")
    case False
    then have "k = N" using less.prems(4) by simp
    then show ?thesis using less.prems by (subst advance_through_firewall.simps) simp
  next
    case True
    let ?l = "(advance_scanner ^^ k) (L ! k)"
    have idx: "py_index (layers (fwall p)) (int k) = Inr ?l" using True less.prems assms(1) by (simp add: py_simps)
    have chk: "fw_check_for_detection (fwall p) (int k) 0 = Inr (det_at L k)"
      using True less.prems idx by (simp add: fw_check_for_detection_def det_at_def)
    have rng: "get_layer_range (fwall p) (int k) = Inr (lrange (L ! k))" using idx by (simp add: get_layer_range_def)
    define p1 where "p1 = (if det_at L k then p\<lparr>packet_detections := packet_detections p @ [(int k, lrange (L ! k))]\<rparr> else p)"
    have pc: "packet_check p = Inr (p1, det_at L k)"
      using chk rng less.prems by (simp add: packet_check_def p1_def)
    let ?p2 = "packet_advance_time p1"
    have h: "fw_depth (fwall ?p2) = N" "layers (fwall ?p2) = map (advance_scanner ^^ Suc k) L"
      "packet_depth_loc ?p2 = int (Suc k)" "Suc k \<le> N" "packet_layer_loc ?p2 = 0"
      using less.prems True by (simp_all add: p1_def packet_advance_time_def fw_advance_time_def)
    have lt: "N - Suc k < N - k" using True by simp
    from less.hyps[OF lt h(1-4) h(5)] obtain p' where
      "advance_through_firewall ?p2 = Some (Inr p')"
      "packet_detections p' = packet_detections ?p2 @ map (\<lambda>j. (int j, lrange (L ! j))) (filter (det_at L) [Suc k..<N])"
      by auto
    moreover have "[k..<N] = k # [Suc k..<N]" using True by (simp add: upt_conv_Cons)
    ultimately show ?thesis using pc True less.prems
      by (subst advance_through_firewall.simps) (simp add: p1_def packet_advance_time_def)
  qed
qed

lemma set_ranges_nth:
  "distinct (map fst ps) \<Longrightarrow> \<forall>(d, r) \<in> set ps. 0 \<le> d \<and> d < int (length ls) \<Longrightarrow>
   \<exists>ls'. set_ranges ls ps = Inr ls' \<and> length ls' = length ls \<and>
     (\<forall>j < length ls. ls' ! j = (case map_of ps (int j) of None \<Rightarrow> ls ! j | Some r \<Rightarrow> set_range r (ls ! j)))"
proof (induction ps arbitrary: ls)
  case Nil
  then show ?case by simp
next
  case (Cons p ps)
  obtain d r where p: "p = (d, r)" by (cases p)
  have d: "0 \<le> d" "d < int (length ls)" using Cons.prems p by auto
  let ?ls1 = "ls[nat d := set_range r (ls ! nat d)]"
  have st: "set_ranges ls (p # ps) = set_ranges ?ls1 ps" using d p by (simp add: py_simps)
  have "distinct (map fst ps)" "\<forall>(d, r) \<in> set ps. 0 \<le> d \<and> d < int (length ?ls1)"
    using Cons.prems p by auto
  from Cons.IH[OF this] obtain ls' where ls': "set_ranges ?ls1 ps = Inr ls'" "length ls' = length ls"
    "\<forall>j < length ls. ls' ! j = (case map_of ps (int j) of None \<Rightarrow> ?ls1 ! j | Some r \<Rightarrow> set_range r (?ls1 ! j))"
    by auto
  have nd: "map_of ps d = None" using Cons.prems(1) p by (simp add: map_of_eq_None_iff)
  have "\<forall>j < length ls. ls' ! j = (case map_of (p # ps) (int j) of None \<Rightarrow> ls ! j | Some r \<Rightarrow> set_range r (ls ! j))"
  proof (intro allI impI)
    fix j assume j: "j < length ls"
    show "ls' ! j = (case map_of (p # ps) (int j) of None \<Rightarrow> ls ! j | Some r \<Rightarrow> set_range r (ls ! j))"
    proof (cases "int j = d")
      case True
      then have "j = nat d" by simp
      then show ?thesis using ls'(3) j True nd p by simp
    next
      case False
      then have "nat d \<noteq> j" using d by auto
      then have eq: "?ls1 ! j = ls ! j" by simp
      have m: "map_of (p # ps) (int j) = map_of ps (int j)" using False p by simp
      show ?thesis using ls'(3)[rule_format, OF j] unfolding eq m .
    qed
  qed
  then show ?case using st ls' by simp
qed

lemma sum_map_of:
  "distinct (map fst ps) \<Longrightarrow> \<forall>(d, r) \<in> set ps. 0 \<le> d \<and> d < int n \<Longrightarrow>
   sum_list (map (\<lambda>j. case map_of ps (int j) of None \<Rightarrow> 0 | Some r \<Rightarrow> g (int j) r) [0..<n]) =
   sum_list (map (\<lambda>(d, r). g d r) ps :: int list)"
proof (induction ps)
  case Nil
  then show ?case by simp
next
  case (Cons p ps)
  obtain d r where p: "p = (d, r)" by (cases p)
  have d: "0 \<le> d" "d < int n" using Cons.prems p by auto
  have nd: "map_of ps d = None" using Cons.prems(1) p by (simp add: map_of_eq_None_iff)
  have split: "(case map_of (p # ps) (int j) of None \<Rightarrow> 0 | Some r \<Rightarrow> g (int j) r) =
      (case map_of ps (int j) of None \<Rightarrow> 0 | Some r \<Rightarrow> g (int j) r) + (if j = nat d then g d r else 0)" for j
    using nd d p by (cases "int j = d") auto
  have "sum_list (map (\<lambda>j. case map_of (p # ps) (int j) of None \<Rightarrow> 0 | Some r \<Rightarrow> g (int j) r) [0..<n]) =
      sum_list (map (\<lambda>j. case map_of ps (int j) of None \<Rightarrow> 0 | Some r \<Rightarrow> g (int j) r) [0..<n]) +
      sum_list (map (\<lambda>j. if j = nat d then g d r else 0) [0..<n])"
    unfolding split by (simp add: sum_list_addf)
  also have "\<dots> = sum_list (map (\<lambda>(d, r). g d r) ps) + g d r"
    using Cons d by (simp add: sum_list_upt_delta)
  finally show ?case using p by simp
qed

lemma severity_of_Some:
  "\<forall>x \<in> set ds. snd x \<noteq> None \<Longrightarrow> severity_of ds = Inr (sum_list (map (\<lambda>(d, r). d * the r) ds))"
  unfolding severity_of_def
  by (subst py_map_Inr[where g = "\<lambda>(d, r). d * the r"]) (auto split: option.splits)

lemma det_at_range:
  "det_at L j \<Longrightarrow> lrange (L ! j) \<noteq> None"
  by (auto simp: det_at_def intruder_detected_def split: option.splits)

lemma set_range_init_top:
  "2 \<le> r \<Longrightarrow> intruder_detected ((advance_scanner ^^ n) (set_range r layer_init)) 0 \<longleftrightarrow> int n mod (2 * (r - 1)) = 0"
  by (rule scanner_top_iff) (simp_all add: set_range_def layer_init_def)

lemma firewall_init_layers:
  assumes ne: "params \<noteq> []" and d: "distinct (map fst params)" and ok: "\<forall>(d, r) \<in> set params. 0 \<le> d"
  obtains fw where "firewall_init params = Inr fw" "fw_depth fw = length (layers fw)"
    "\<forall>(d, r) \<in> set params. d < int (length (layers fw))"
    "\<forall>j < length (layers fw). layers fw ! j =
       (case map_of params (int j) of None \<Rightarrow> layer_init | Some r \<Rightarrow> set_range r layer_init)"
proof -
  let ?m = "Max (set (map fst params))"
  have mx: "py_max (map fst params) = Inr ?m" using ne by (simp add: py_max_Inr)
  have le: "d \<le> ?m" if "(d, r) \<in> set params" for d r using that by (force intro: Max_ge)
  have rng: "\<forall>(d, r) \<in> set params. 0 \<le> d \<and> d < int (length (replicate (nat (?m + 1)) layer_init))"
    using ok le by fastforce
  from set_ranges_nth[OF d rng] obtain ls where ls: "set_ranges (replicate (nat (?m + 1)) layer_init) params = Inr ls"
    "length ls = length (replicate (nat (?m + 1)) layer_init)"
    "\<forall>j < length (replicate (nat (?m + 1)) layer_init). ls ! j = (case map_of params (int j) of
       None \<Rightarrow> replicate (nat (?m + 1)) layer_init ! j | Some r \<Rightarrow> set_range r (replicate (nat (?m + 1)) layer_init ! j))"
    by blast
  have ls3: "\<forall>j < nat (?m + 1). ls ! j = (case map_of params (int j) of None \<Rightarrow> layer_init | Some r \<Rightarrow> set_range r layer_init)"
  proof (intro allI impI)
    fix j assume j: "j < nat (?m + 1)"
    show "ls ! j = (case map_of params (int j) of None \<Rightarrow> layer_init | Some r \<Rightarrow> set_range r layer_init)"
      using ls(3)[rule_format, of j] j by (simp only: length_replicate nth_replicate[OF j])
  qed
  show ?thesis
  proof
    show "firewall_init params = Inr \<lparr>layers = ls, fw_depth = length ls\<rparr>"
      using mx ls(1) by (simp add: firewall_init_def)
  qed (use ls(2) ls3 rng in auto)
qed

lemma severity_term:
  assumes L: "L ! j = (case map_of params (int j) of None \<Rightarrow> layer_init | Some r \<Rightarrow> set_range r layer_init)"
    and ok: "\<forall>(d, r) \<in> set params. 2 \<le> r"
  shows "(if det_at L j then int j * the (lrange (L ! j)) else 0) =
         (case map_of params (int j) of None \<Rightarrow> 0
          | Some r \<Rightarrow> (\<lambda>d r. if d mod (2 * (r - 1)) = 0 then d * r else 0) (int j) r)"
proof (cases "map_of params (int j)")
  case None
  then have "\<not> det_at L j" using L det_at_range by (fastforce simp: layer_init_def)
  then show ?thesis using None by simp
next
  case (Some r)
  then have "2 \<le> r" using ok by (auto dest: map_of_SomeD)
  then show ?thesis using L Some set_range_init_top[of r j] by (simp add: det_at_def set_range_def)
qed

text \<open>C22 (refinement of the simulation): for distinct depths \<open>d \<ge> 0\<close> and ranges
  \<open>r \<ge> 2\<close>, the firewall is built, the packet sent at time 0 passes through it, and
  the trip severity the objects compute is \<open>spec_severity\<close>.\<close>

theorem get_packet_trip_severity_refines:
  assumes ne: "params \<noteq> []" and d: "distinct (map fst params)"
    and ok: "\<forall>(d, r) \<in> set params. 0 \<le> d \<and> 2 \<le> r"
  shows "\<exists>fw. firewall_init params = Inr fw \<and>
    get_packet_trip_severity (packet_init fw 0) = Some (Inr (spec_severity params))"
proof -
  have ok0: "\<forall>(d, r) \<in> set params. 0 \<le> d" and ok2: "\<forall>(d, r) \<in> set params. 2 \<le> r" using ok by auto
  obtain fw where fw: "firewall_init params = Inr fw" "fw_depth fw = length (layers fw)"
    "\<forall>(d, r) \<in> set params. d < int (length (layers fw))"
    "\<forall>j < length (layers fw). layers fw ! j =
       (case map_of params (int j) of None \<Rightarrow> layer_init | Some r \<Rightarrow> set_range r layer_init)"
    using firewall_init_layers[OF ne d ok0] by blast
  define L where "L = layers fw"
  define N where "N = length L"
  let ?p0 = "packet_init fw 0"
  obtain p' where p': "advance_through_firewall ?p0 = Some (Inr p')"
    "packet_detections p' = map (\<lambda>j. (int j, lrange (L ! j))) (filter (det_at L) [0..<N])"
    using advance_through_detections[of L N ?p0 0] fw(2)
    by (auto simp: packet_init_def L_def N_def)
  have sev: "severity_of (packet_detections p') =
      Inr (sum_list (map (\<lambda>j. if det_at L j then int j * the (lrange (L ! j)) else 0) [0..<N]))"
    using p'(2) det_at_range by (simp add: severity_of_Some comp_def sum_list_filter_map)
  have terms: "map (\<lambda>j. if det_at L j then int j * the (lrange (L ! j)) else 0) [0..<N] =
      map (\<lambda>j. case map_of params (int j) of None \<Rightarrow> 0
          | Some r \<Rightarrow> (\<lambda>d r. if d mod (2 * (r - 1)) = 0 then d * r else 0) (int j) r) [0..<N]"
    using fw(4) ok2 by (intro map_cong refl severity_term) (auto simp: L_def N_def)
  have rng: "\<forall>(d, r) \<in> set params. 0 \<le> d \<and> d < int N" using fw(3) ok0 by (auto simp: L_def N_def)
  have "sum_list (map (\<lambda>j. if det_at L j then int j * the (lrange (L ! j)) else 0) [0..<N]) = spec_severity params"
    unfolding terms spec_severity_def
    by (rule sum_map_of[OF d rng, where g = "\<lambda>d r. if d mod (2 * (r - 1)) = 0 then d * r else 0"])
  then show ?thesis using fw(1) p'(1) sev by (simp add: get_packet_trip_severity_def)
qed

lemma fsw_inner_scan:
  assumes "length L = N" "packet_layer_loc p = 0"
  shows "fw_depth (fwall p) = N \<Longrightarrow> layers (fwall p) = map (advance_scanner ^^ (w + k)) L \<Longrightarrow>
    packet_depth_loc p = int k \<Longrightarrow> k \<le> N \<Longrightarrow>
    \<exists>p' b m. fsw_inner p = Some (Inr (p', b)) \<and> (b \<longleftrightarrow> (\<exists>j. k \<le> j \<and> j < N \<and> 0 < j \<and> det_wait L w j)) \<and>
      fw_depth (fwall p') = N \<and> packet_layer_loc p' = 0 \<and> layers (fwall p') = map (advance_scanner ^^ m) L"
  using assms(2)
proof (induction "N - k" arbitrary: p k rule: less_induct)
  case less
  show ?case
  proof (cases "k < N")
    case False
    then have "k = N" using less.prems(4) by simp
    then show ?thesis using less.prems by (subst fsw_inner.simps) auto
  next
    case True
    let ?l = "(advance_scanner ^^ (w + k)) (L ! k)"
    have idx: "py_index (layers (fwall p)) (int k) = Inr ?l" using True less.prems assms(1) by (simp add: py_simps)
    have chk: "fw_check_for_detection (fwall p) (int k) 0 = Inr (det_wait L w k)"
      using True less.prems idx by (simp add: fw_check_for_detection_def det_wait_def)
    have rng: "get_layer_range (fwall p) (int k) = Inr (lrange (L ! k))" using idx by (simp add: get_layer_range_def)
    define p1 where "p1 = (if det_wait L w k then p\<lparr>packet_detections := packet_detections p @ [(int k, lrange (L ! k))]\<rparr> else p)"
    have pc: "packet_check p = Inr (p1, det_wait L w k)"
      using chk rng less.prems by (simp add: packet_check_def p1_def)
    have p1: "packet_depth_loc p1 = int k" "fwall p1 = fwall p" "packet_layer_loc p1 = 0"
      using less.prems by (simp_all add: p1_def)
    show ?thesis
    proof (cases "det_wait L w k \<and> 0 < k")
      case True
      then show ?thesis using pc p1 less.prems \<open>k < N\<close> by (subst fsw_inner.simps) auto
    next
      case nd: False
      let ?p2 = "packet_advance_time p1"
      have h: "fw_depth (fwall ?p2) = N" "layers (fwall ?p2) = map (advance_scanner ^^ (w + Suc k)) L"
        "packet_depth_loc ?p2 = int (Suc k)" "Suc k \<le> N" "packet_layer_loc ?p2 = 0"
        using less.prems True p1 by (simp_all add: packet_advance_time_def fw_advance_time_def)
      have lt: "N - Suc k < N - k" using True by simp
      from less.hyps[OF lt h(1-4) h(5)] obtain p' b m where
        rec: "fsw_inner ?p2 = Some (Inr (p', b))" "b \<longleftrightarrow> (\<exists>j. Suc k \<le> j \<and> j < N \<and> 0 < j \<and> det_wait L w j)"
        "fw_depth (fwall p') = N \<and> packet_layer_loc p' = 0 \<and> layers (fwall p') = map (advance_scanner ^^ m) L"
        by blast
      have "(\<exists>j. k \<le> j \<and> j < N \<and> 0 < j \<and> det_wait L w j) \<longleftrightarrow> (\<exists>j. Suc k \<le> j \<and> j < N \<and> 0 < j \<and> det_wait L w j)"
        using nd by (auto simp: Suc_le_eq dest: le_neq_implies_less intro: less_imp_le)
      moreover have "fsw_inner p = Some (Inr (p', b))"
        using pc p1 nd True less.prems rec(1) by (subst fsw_inner.simps) auto
      ultimately show ?thesis using rec by blast
    qed
  qed
qed

lemma wait_funpow:
  "packet_depth_loc ((wait ^^ n) p) = packet_depth_loc p \<and> packet_layer_loc ((wait ^^ n) p) = packet_layer_loc p \<and>
   fw_depth (fwall ((wait ^^ n) p)) = fw_depth (fwall p) \<and>
   layers (fwall ((wait ^^ n) p)) = map (advance_scanner ^^ n) (layers (fwall p))"
  by (induction n) (simp_all add: wait_def fw_advance_time_def)

lemma reset_layer_funpow:
  "scanner_location l = 0 \<Longrightarrow> forwards l \<Longrightarrow> reset_layer ((advance_scanner ^^ m) l) = l"
  by (simp add: reset_layer_def)

lemma fsw_loop_least:
  assumes L: "length L = N" "\<forall>l \<in> set L. scanner_location l = 0 \<and> forwards l"
    and free: "\<not> caught_after L w0"
  shows "w \<le> w0 \<Longrightarrow> fw_depth (fwall p) = N \<Longrightarrow> layers (fwall p) = map (advance_scanner ^^ w) L \<Longrightarrow>
    packet_depth_loc p = 0 \<Longrightarrow> packet_layer_loc p = 0 \<Longrightarrow>
    \<exists>v. fsw_loop w p = Some (Inr v) \<and> w \<le> v \<and> \<not> caught_after L v \<and> (\<forall>u. w \<le> u \<and> u < v \<longrightarrow> caught_after L u)"
proof (induction "w0 - w" arbitrary: w p rule: less_induct)
  case less
  have "layers (fwall p) = map (advance_scanner ^^ (w + 0)) L" using less.prems(3) by simp
  from fsw_inner_scan[OF L(1) less.prems(5) less.prems(2) this] less.prems(4) obtain p' b m where
    inner: "fsw_inner p = Some (Inr (p', b))" and b: "b \<longleftrightarrow> caught_after L w"
    and p': "fw_depth (fwall p') = N" "packet_layer_loc p' = 0" "layers (fwall p') = map (advance_scanner ^^ m) L"
    using L(1) by (auto simp: caught_after_def)
  show ?case
  proof (cases b)
    case False
    then show ?thesis using inner b by (subst fsw_loop.simps) auto
  next
    case True
    then have lt: "w < w0" using less.prems(1) b free by (cases "w = w0") auto
    let ?p2 = "(wait ^^ (w + 1)) (packet_reset p')"
    have rs: "map reset_layer (map (advance_scanner ^^ m) L) = L"
      using L(2) by (induction L) (auto simp: reset_layer_funpow)
    have h: "fw_depth (fwall ?p2) = N" "layers (fwall ?p2) = map (advance_scanner ^^ (w + 1)) L"
      "packet_depth_loc ?p2 = 0" "packet_layer_loc ?p2 = 0"
      using p' rs wait_funpow[of "w + 1" "packet_reset p'"]
      by (simp_all add: packet_reset_def reset_firewall_def del: funpow.simps)
    have "w0 - (w + 1) < w0 - w" "w + 1 \<le> w0" using lt by simp_all
    from less.hyps[OF this h] obtain v where
      v: "fsw_loop (w + 1) ?p2 = Some (Inr v)" "w + 1 \<le> v" "\<not> caught_after L v"
      "\<forall>u. w + 1 \<le> u \<and> u < v \<longrightarrow> caught_after L u"
      by auto
    have "\<forall>u. w \<le> u \<and> u < v \<longrightarrow> caught_after L u"
      using v(4) True b by (metis Suc_eq_plus1 Suc_leI le_neq_implies_less)
    moreover have "fsw_loop w p = Some (Inr v)" using inner True v(1) by (subst fsw_loop.simps) simp
    ultimately show ?thesis using v(2,3) by auto
  qed
qed

lemma caught_after_params:
  assumes d: "distinct (map fst params)" and ok: "\<forall>(d, r) \<in> set params. 0 \<le> d \<and> 2 \<le> r"
    and rng: "\<forall>(d, r) \<in> set params. d < int (length L)"
    and L: "\<forall>j < length L. L ! j = (case map_of params (int j) of None \<Rightarrow> layer_init | Some r \<Rightarrow> set_range r layer_init)"
  shows "caught_after L w \<longleftrightarrow> caught (filter (\<lambda>(d, r). 0 < d) params) (int w)"
proof
  assume "caught_after L w"
  then obtain j where j: "j < length L" "0 < j" "det_wait L w j" by (auto simp: caught_after_def)
  then obtain r where r: "map_of params (int j) = Some r"
    using L by (cases "map_of params (int j)") (auto simp: det_wait_def intruder_detected_def layer_init_def)
  then have mem: "(int j, r) \<in> set params" by (rule map_of_SomeD)
  then have "2 \<le> r" using ok by auto
  then have "int (w + j) mod (2 * (r - 1)) = 0" using j L r set_range_init_top[of r "w + j"] by (simp add: det_wait_def)
  then show "caught (filter (\<lambda>(d, r). 0 < d) params) (int w)"
    using mem j(2) by (force simp: caught_def scanner_top.simps)
next
  assume "caught (filter (\<lambda>(d, r). 0 < d) params) (int w)"
  then obtain d r where mem: "(d, r) \<in> set params" "0 < d" "(int w + d) mod (2 * (r - 1)) = 0"
    by (auto simp: caught_def scanner_top.simps)
  define j where "j = nat d"
  have j: "int j = d" "j < length L" "0 < j" using mem rng by (auto simp: j_def)
  have r: "map_of params (int j) = Some r" using mem(1) d j(1) by simp
  have "2 \<le> r" using mem ok by auto
  then have "det_wait L w j"
    using j L r mem(3) set_range_init_top[of r "w + j"] by (simp add: det_wait_def add.commute)
  then show "caught_after L w" using j by (auto simp: caught_after_def)
qed

text \<open>C24 (liveness and least value of \<open>find_shortest_wait\<close>): for distinct depths
  \<open>d \<ge> 0\<close> and ranges \<open>r \<ge> 2\<close>, if some delay lets the packet pass every layer of
  depth greater than 0, the search of the objects ends and returns the least such
  delay; layer 0 is never consulted.\<close>

theorem find_shortest_wait_least:
  assumes ne: "params \<noteq> []" and d: "distinct (map fst params)"
    and ok: "\<forall>(d, r) \<in> set params. 0 \<le> d \<and> 2 \<le> r"
    and free: "\<not> caught (filter (\<lambda>(d, r). 0 < d) params) (int w0)"
  shows "\<exists>fw w. firewall_init params = Inr fw \<and> find_shortest_wait (packet_init fw 0) = Some (Inr w) \<and>
    \<not> caught (filter (\<lambda>(d, r). 0 < d) params) (int w) \<and>
    (\<forall>v < w. caught (filter (\<lambda>(d, r). 0 < d) params) (int v))"
proof -
  have ok0: "\<forall>(d, r) \<in> set params. 0 \<le> d" using ok by auto
  obtain fw where fw: "firewall_init params = Inr fw" "fw_depth fw = length (layers fw)"
    "\<forall>(d, r) \<in> set params. d < int (length (layers fw))"
    "\<forall>j < length (layers fw). layers fw ! j =
       (case map_of params (int j) of None \<Rightarrow> layer_init | Some r \<Rightarrow> set_range r layer_init)"
    using firewall_init_layers[OF ne d ok0] by blast
  define L where "L = layers fw"
  have c: "caught_after L w \<longleftrightarrow> caught (filter (\<lambda>(d, r). 0 < d) params) (int w)" for w
    using caught_after_params[OF d ok] fw(3,4) by (simp add: L_def)
  have "scanner_location (L ! i) = 0 \<and> forwards (L ! i)" if "i < length L" for i
    using fw(4) that by (cases "map_of params (int i)") (simp_all add: L_def layer_init_def set_range_def)
  then have fresh: "\<forall>l \<in> set L. scanner_location l = 0 \<and> forwards l" by (auto simp: in_set_conv_nth)
  have "map reset_layer L = L" using fresh by (induction L) (auto simp: reset_layer_def)
  then have p0: "fw_depth (fwall (packet_reset (packet_init fw 0))) = length L"
    "layers (fwall (packet_reset (packet_init fw 0))) = map (advance_scanner ^^ 0) L"
    "packet_depth_loc (packet_reset (packet_init fw 0)) = 0" "packet_layer_loc (packet_reset (packet_init fw 0)) = 0"
    using fw(2) by (simp_all add: packet_reset_def packet_init_def reset_firewall_def L_def)
  from fsw_loop_least[OF refl fresh, of w0 0, OF _ _ p0] free c obtain v where
    "fsw_loop 0 (packet_reset (packet_init fw 0)) = Some (Inr v)" "\<not> caught_after L v" "\<forall>u < v. caught_after L u"
    by auto
  then show ?thesis using fw(1) c by (auto simp: find_shortest_wait_def)
qed

end
