(* ===== verification/Virus.thy ===== *)
theory Virus
  imports Prelude
begin

text \<open>
  Day 22, "Sporifica Virus" (\<open>src/code/day22/day22.py\<close>). The two classes are one
  record \<open>virus\<close> with a tag \<open>vclass\<close> for the subclass, so that
  \<open>update_cell_status\<close> dispatches as the override does; the dictionaries are
  association lists (\<open>pydict\<close>), the tuple keys and the location are lists of two
  integers, the direction is the list \<open>[dx, dy]\<close> the code keeps.
  \<open>load_infection_states\<close> is modelled from the lines of the file on.
  The specification is the puzzle's: a carrier on an infinite grid of node
  states with a heading, \<open>spec_burst\<close>; \<open>vabs\<close> reads a virus as a carrier, and
  every burst of the code is a burst of the specification.
\<close>

section \<open>\<open>sporifica_virus\<close>\<close>

datatype vclass = Sporifica | Super_sporifica

record virus =
  vclass :: vclass
  infections :: "(int list, char) pydict"
  location :: "int list"
  direction :: "int list"
  rotation_infection_map :: "(char, char) pydict"
  rotation_matix :: "(char, int list list) pydict"
  cell_status_map :: "(char, char) pydict"
  activity_bursts :: int
  burst_infections :: int

definition rotation_matrices :: "(char, int list list) pydict" where
  "rotation_matrices = [(CHR ''r'', [[0, 1], [-1, 0]]), (CHR ''l'', [[0, -1], [1, 0]]),
     (CHR ''b'', [[-1, 0], [0, -1]]), (CHR ''f'', [[1, 0], [0, 1]])]"

definition basic_rotations :: "(char, char) pydict" where
  "basic_rotations = [(CHR ''C'', CHR ''l''), (CHR ''I'', CHR ''r'')]"

definition super_rotations :: "(char, char) pydict" where
  "super_rotations = [(CHR ''C'', CHR ''l''), (CHR ''W'', CHR ''f''), (CHR ''I'', CHR ''r''), (CHR ''F'', CHR ''b'')]"

definition super_status_map :: "(char, char) pydict" where
  "super_status_map = [(CHR ''C'', CHR ''W''), (CHR ''W'', CHR ''I''), (CHR ''I'', CHR ''F'')]"

definition virus_init :: "vclass \<Rightarrow> (int list, char) pydict \<Rightarrow> (char, char) pydict \<Rightarrow> (char, char) pydict \<Rightarrow> virus" where
  "virus_init c initial_infection rmap smap =
     \<lparr>vclass = c, infections = initial_infection, location = [0, 0], direction = [0, 1],
      rotation_infection_map = rmap, rotation_matix = rotation_matrices, cell_status_map = smap,
      activity_bursts = 0, burst_infections = 0\<rparr>"

definition sporifica_init :: "(int list, char) pydict \<Rightarrow> virus" where
  "sporifica_init initial_infection =
     virus_init Sporifica initial_infection basic_rotations []"

definition super_init :: "(int list, char) pydict \<Rightarrow> virus" where
  "super_init initial_infection =
     virus_init Super_sporifica initial_infection super_rotations super_status_map"

definition cell_status :: "virus \<Rightarrow> char" where
  "cell_status v = d_get (infections v) (location v) (CHR ''C'')"

definition rotate :: "virus \<Rightarrow> virus py" where
  "rotate v =
     (case d_lookup (rotation_infection_map v) (cell_status v) of Inl e \<Rightarrow> Inl e
      | Inr rotation_direction \<Rightarrow>
          (case py_map (\<lambda>k. case d_lookup (rotation_matix v) rotation_direction of Inl e \<Rightarrow> Inl e
                 | Inr m \<Rightarrow> (case py_index m k of Inl e \<Rightarrow> Inl e
                   | Inr row \<Rightarrow> Inr (sum_list (map (\<lambda>(i, j). i * j) (zip (direction v) row))))) [0, 1]
           of Inl e \<Rightarrow> Inl e | Inr new_direction \<Rightarrow> Inr (v\<lparr>direction := new_direction\<rparr>)))"

definition update_cell_status_basic :: "virus \<Rightarrow> virus py" where
  "update_cell_status_basic v =
     (if cell_status v = CHR ''I'' then
        (case d_pop (infections v) (location v) of Inl e \<Rightarrow> Inl e | Inr d \<Rightarrow> Inr (v\<lparr>infections := d\<rparr>))
      else Inr (v\<lparr>infections := d_set (infections v) (location v) (CHR ''I''),
                  burst_infections := burst_infections v + 1\<rparr>))"

definition update_cell_status_super :: "virus \<Rightarrow> virus py" where
  "update_cell_status_super v =
     (let s = cell_status v in
      case (if s = CHR ''F'' then d_pop (infections v) (location v)
            else (case d_lookup (cell_status_map v) s of Inl e \<Rightarrow> Inl e
                  | Inr s' \<Rightarrow> Inr (d_set (infections v) (location v) s')))
      of Inl e \<Rightarrow> Inl e
       | Inr d \<Rightarrow> Inr (v\<lparr>infections := d,
                       burst_infections := burst_infections v + (if s = CHR ''W'' then 1 else 0)\<rparr>))"

definition update_cell_status :: "virus \<Rightarrow> virus py" where
  "update_cell_status v =
     (case vclass v of Sporifica \<Rightarrow> update_cell_status_basic v | Super_sporifica \<Rightarrow> update_cell_status_super v)"

definition update_location :: "virus \<Rightarrow> virus" where
  "update_location v = v\<lparr>location := map (\<lambda>(i, j). i + j) (zip (location v) (direction v))\<rparr>"

definition burst :: "virus \<Rightarrow> virus py" where
  "burst v =
     (case rotate v of Inl e \<Rightarrow> Inl e | Inr v1 \<Rightarrow>
      case update_cell_status v1 of Inl e \<Rightarrow> Inl e | Inr v2 \<Rightarrow>
      Inr ((update_location v2)\<lparr>activity_bursts := activity_bursts v2 + 1\<rparr>))"

primrec burst_loop :: "nat \<Rightarrow> virus \<Rightarrow> virus py" where
  "burst_loop 0 v = Inr v"
| "burst_loop (Suc n) v = (case burst v of Inl e \<Rightarrow> Inl e | Inr v' \<Rightarrow> burst_loop n v')"

definition activity_burst :: "int \<Rightarrow> virus \<Rightarrow> virus py" where
  "activity_burst n v = burst_loop (nat n) v"

section \<open>\<open>load_infection_states\<close>\<close>

text \<open>The cells \<open>(j, i)\<close> holding \<open>#\<close>, row \<open>i\<close> of \<open>enumerate\<close>. After the loop
  \<open>line\<close> and \<open>i\<close> are those of the last line (unbound, so \<open>UnboundLocalError\<close>, on
  an empty file); the two asserts ask that the centre be whole, and the keys are
  then integers.\<close>

definition hash_cells :: "string list \<Rightarrow> (nat \<times> nat) list" where
  "hash_cells lines =
     concat (map (\<lambda>(i, line). map (\<lambda>j. (j, i)) (filter (\<lambda>j. py_strip line ! j = CHR ''#'') [0..<length (py_strip line)]))
       (enumerate 0 lines))"

definition load_infection_states :: "string list \<Rightarrow> (int list, char) pydict py" where
  "load_infection_states lines =
     (if lines = [] then Inl UnboundLocalError
      else let w = int (length (py_strip (last lines))) - 1; h = int (length lines - 1) in
        if w mod 2 \<noteq> 0 \<or> h mod 2 \<noteq> 0 then Inl AssertionError
        else Inr (map (\<lambda>(j, i). ([int j - w div 2, h div 2 - int i], CHR ''I'')) (hash_cells lines)))"

section \<open>Specification: the carrier on the grid\<close>

datatype node = Clean | Weakened | Infected | Flagged
datatype heading = Up | Right | Down | Left

record carrier =
  grid :: "int \<times> int \<Rightarrow> node"
  pos :: "int \<times> int"
  heading :: heading
  caused :: int

fun hvec :: "heading \<Rightarrow> int \<times> int" where
  "hvec Up = (0, 1)" | "hvec Right = (1, 0)" | "hvec Down = (0, -1)" | "hvec Left = (-1, 0)"

fun turn_left :: "heading \<Rightarrow> heading" where
  "turn_left Up = Left" | "turn_left Left = Down" | "turn_left Down = Right" | "turn_left Right = Up"

fun turn_right :: "heading \<Rightarrow> heading" where
  "turn_right Up = Right" | "turn_right Right = Down" | "turn_right Down = Left" | "turn_right Left = Up"

fun spec_turn :: "node \<Rightarrow> heading \<Rightarrow> heading" where
  "spec_turn Clean h = turn_left h"
| "spec_turn Weakened h = h"
| "spec_turn Infected h = turn_right h"
| "spec_turn Flagged h = turn_right (turn_right h)"

fun spec_next :: "vclass \<Rightarrow> node \<Rightarrow> node" where
  "spec_next Sporifica s = (if s = Infected then Clean else Infected)"
| "spec_next Super_sporifica Clean = Weakened"
| "spec_next Super_sporifica Weakened = Infected"
| "spec_next Super_sporifica Infected = Flagged"
| "spec_next Super_sporifica Flagged = Clean"

definition spec_burst :: "vclass \<Rightarrow> carrier \<Rightarrow> carrier" where
  "spec_burst cls c =
     (let s = grid c (pos c); h = spec_turn s (heading c); s' = spec_next cls s in
      \<lparr>grid = (grid c)(pos c := s'), pos = (fst (pos c) + fst (hvec h), snd (pos c) + snd (hvec h)),
       heading = h, caused = caused c + (if s' = Infected then 1 else 0)\<rparr>)"

definition node_of :: "char option \<Rightarrow> node" where
  "node_of s = (case s of None \<Rightarrow> Clean | Some c \<Rightarrow>
     if c = CHR ''W'' then Weakened else if c = CHR ''I'' then Infected else if c = CHR ''F'' then Flagged else Clean)"

definition heading_of :: "int list \<Rightarrow> heading" where
  "heading_of d = (if d = [0, 1] then Up else if d = [1, 0] then Right else if d = [0, -1] then Down else Left)"

definition vabs :: "virus \<Rightarrow> carrier" where
  "vabs v = \<lparr>grid = \<lambda>(x, y). node_of (map_of (infections v) [x, y]), pos = (location v ! 0, location v ! 1),
     heading = heading_of (direction v), caused = burst_infections v\<rparr>"

definition dvec :: "heading \<Rightarrow> int list" where
  "dvec h = [fst (hvec h), snd (hvec h)]"

definition states_of :: "vclass \<Rightarrow> char list" where
  "states_of cls = (case cls of Sporifica \<Rightarrow> [CHR ''I''] | Super_sporifica \<Rightarrow> [CHR ''W'', CHR ''I'', CHR ''F''])"

definition virus_ok :: "virus \<Rightarrow> bool" where
  "virus_ok v \<longleftrightarrow>
     rotation_infection_map v = (case vclass v of Sporifica \<Rightarrow> basic_rotations | Super_sporifica \<Rightarrow> super_rotations) \<and>
     (vclass v = Super_sporifica \<longrightarrow> cell_status_map v = super_status_map) \<and>
     rotation_matix v = rotation_matrices \<and>
     direction v = dvec (heading_of (direction v)) \<and> length (location v) = 2 \<and>
     distinct (map fst (infections v)) \<and> (\<forall>(k, s) \<in> set (infections v). s \<in> set (states_of (vclass v)))"

definition node_char :: "node \<Rightarrow> char" where
  "node_char n = (case n of Clean \<Rightarrow> CHR ''C'' | Weakened \<Rightarrow> CHR ''W'' | Infected \<Rightarrow> CHR ''I'' | Flagged \<Rightarrow> CHR ''F'')"

section \<open>Lemmas\<close>

lemmas virus_eval = sporifica_init_def super_init_def virus_init_def burst_def rotate_def cell_status_def
  d_get_def d_set_def d_lookup_def basic_rotations_def super_rotations_def super_status_map_def
  rotation_matrices_def py_index_def update_cell_status_def update_cell_status_basic_def
  update_cell_status_super_def d_pop_def update_location_def activity_burst_def

lemma heading_of_dvec [simp]: "heading_of (dvec h) = h"
  by (cases h) (simp_all add: heading_of_def dvec_def)

lemma virus_ok_status:
  assumes "virus_ok v"
  shows "cell_status v \<in> set (CHR ''C'' # states_of (vclass v))"
    and "node_of (map_of (infections v) (location v)) = node_of (Some (cell_status v))"
proof -
  have "map_of (infections v) (location v) = Some s \<Longrightarrow> s \<in> set (states_of (vclass v))" for s
    using assms by (auto simp: virus_ok_def dest: map_of_SomeD)
  then show "cell_status v \<in> set (CHR ''C'' # states_of (vclass v))"
    by (auto simp: cell_status_def d_get_def split: option.splits)
  show "node_of (map_of (infections v) (location v)) = node_of (Some (cell_status v))"
    by (simp add: cell_status_def d_get_def node_of_def split: option.splits)
qed

lemma rotate_ok:
  assumes "virus_ok v"
  shows "rotate v = Inr (v\<lparr>direction := dvec (spec_turn (node_of (Some (cell_status v))) (heading_of (direction v)))\<rparr>)"
proof -
  obtain h where h: "direction v = dvec h" using assms by (auto simp: virus_ok_def)
  have st: "cell_status v \<in> set (CHR ''C'' # states_of (vclass v))" using virus_ok_status[OF assms] by simp
  show ?thesis
  proof (cases "vclass v")
    case Sporifica
    then show ?thesis using assms h st
      by (cases h) (auto simp: virus_ok_def rotate_def d_lookup_def basic_rotations_def rotation_matrices_def
        py_index_def dvec_def states_of_def node_of_def heading_of_def)
  next
    case Super_sporifica
    then show ?thesis using assms h st
      by (cases h) (auto simp: virus_ok_def rotate_def d_lookup_def super_rotations_def rotation_matrices_def
        py_index_def dvec_def states_of_def node_of_def heading_of_def)
  qed
qed

lemma cell_status_Some:
  "cell_status v \<noteq> CHR ''C'' \<Longrightarrow> map_of (infections v) (location v) = Some (cell_status v)"
  by (auto simp: cell_status_def d_get_def split: option.splits)

lemma update_cell_status_ok:
  assumes ok: "virus_ok v"
  defines "n \<equiv> spec_next (vclass v) (node_of (Some (cell_status v)))"
  shows "\<exists>d. update_cell_status v = Inr (v\<lparr>infections := d, burst_infections := burst_infections v + (if n = Infected then 1 else 0)\<rparr>) \<and>
     map_of d = (map_of (infections v))(location v := if n = Clean then None else Some (node_char n)) \<and>
     distinct (map fst d) \<and> (\<forall>(k, s) \<in> set d. s \<in> set (states_of (vclass v)))"
proof -
  have st: "cell_status v \<in> set (CHR ''C'' # states_of (vclass v))" using virus_ok_status(1)[OF ok] .
  have ds: "distinct (map fst (infections v))" "\<forall>(k, s) \<in> set (infections v). s \<in> set (states_of (vclass v))"
    using ok by (simp_all add: virus_ok_def)
  show ?thesis
  proof (cases "vclass v")
    case Sporifica
    then have "cell_status v = CHR ''C'' \<or> cell_status v = CHR ''I''" using st by (simp add: states_of_def)
    then show ?thesis
    proof
      assume s: "cell_status v = CHR ''C''"
      show ?thesis using store_set[OF ds, of "CHR ''I''" "location v"] s Sporifica
        by (auto simp: update_cell_status_def update_cell_status_basic_def n_def node_of_def node_char_def states_of_def)
    next
      assume s: "cell_status v = CHR ''I''"
      show ?thesis using store_delete[OF ds(1), of "location v"] ds(2) s Sporifica cell_status_Some[of v]
        by (auto simp: update_cell_status_def update_cell_status_basic_def d_pop_def n_def node_of_def states_of_def
          intro!: exI[where x = "AList.delete (location v) (infections v)"])
    qed
  next
    case Super_sporifica
    then have sm: "cell_status_map v = super_status_map" using ok by (simp add: virus_ok_def)
    have "cell_status v = CHR ''C'' \<or> cell_status v = CHR ''W'' \<or> cell_status v = CHR ''I'' \<or> cell_status v = CHR ''F''"
      using st Super_sporifica by (simp add: states_of_def)
    then show ?thesis
    proof (elim disjE)
      assume s: "cell_status v = CHR ''F''"
      show ?thesis using store_delete[OF ds(1), of "location v"] ds(2) s Super_sporifica cell_status_Some[of v]
        by (auto simp: update_cell_status_def update_cell_status_super_def d_pop_def n_def node_of_def states_of_def
          intro!: exI[where x = "AList.delete (location v) (infections v)"])
    next
      assume s: "cell_status v = CHR ''C''"
      show ?thesis using store_set[OF ds, of "CHR ''W''" "location v"] s Super_sporifica sm
        by (auto simp: update_cell_status_def update_cell_status_super_def d_lookup_def super_status_map_def
          n_def node_of_def node_char_def states_of_def intro!: exI[where x = "d_set (infections v) (location v) (CHR ''W'')"])
    next
      assume s: "cell_status v = CHR ''W''"
      show ?thesis using store_set[OF ds, of "CHR ''I''" "location v"] s Super_sporifica sm
        by (auto simp: update_cell_status_def update_cell_status_super_def d_lookup_def super_status_map_def
          n_def node_of_def node_char_def states_of_def intro!: exI[where x = "d_set (infections v) (location v) (CHR ''I'')"])
    next
      assume s: "cell_status v = CHR ''I''"
      show ?thesis using store_set[OF ds, of "CHR ''F''" "location v"] s Super_sporifica sm
        by (auto simp: update_cell_status_def update_cell_status_super_def d_lookup_def super_status_map_def
          n_def node_of_def node_char_def states_of_def intro!: exI[where x = "d_set (infections v) (location v) (CHR ''F'')"])
    qed
  qed
qed

lemma node_of_char: "node_of (if n = Clean then None else Some (node_char n)) = n"
  by (cases n) (simp_all add: node_of_def node_char_def)

lemma heading_of_hvec [simp]: "heading_of [fst (hvec h), snd (hvec h)] = h"
  using heading_of_dvec[of h] by (simp add: dvec_def)

lemma virus_ok_rotated:
  "virus_ok v \<Longrightarrow> virus_ok (v\<lparr>direction := dvec h\<rparr>)"
  by (simp add: virus_ok_def)

lemma burst_ok:
  assumes ok: "virus_ok v"
  shows "\<exists>v'. burst v = Inr v' \<and> virus_ok v' \<and> vclass v' = vclass v \<and>
    activity_bursts v' = activity_bursts v + 1 \<and> vabs v' = spec_burst (vclass v) (vabs v)"
proof -
  define s where "s = node_of (Some (cell_status v))"
  define h where "h = spec_turn s (heading_of (direction v))"
  define v1 where "v1 = v\<lparr>direction := dvec h\<rparr>"
  have r: "rotate v = Inr v1" using rotate_ok[OF ok] by (simp add: v1_def h_def s_def)
  have ok1: "virus_ok v1" using virus_ok_rotated[OF ok] by (simp add: v1_def)
  have cs: "cell_status v1 = cell_status v" by (simp add: v1_def cell_status_def)
  define n where "n = spec_next (vclass v) s"
  obtain d where d: "update_cell_status v1 = Inr (v1\<lparr>infections := d, burst_infections := burst_infections v1 + (if n = Infected then 1 else 0)\<rparr>)"
    "map_of d = (map_of (infections v1))(location v1 := if n = Clean then None else Some (node_char n))"
    "distinct (map fst d)" "\<forall>(k, s) \<in> set d. s \<in> set (states_of (vclass v1))"
    using update_cell_status_ok[OF ok1] cs by (auto simp: n_def s_def v1_def)
  obtain x y where loc: "location v = [x, y]" using ok
    by (auto simp: virus_ok_def length_Suc_conv numeral_2_eq_2)
  have s0: "grid (vabs v) (pos (vabs v)) = s"
    using virus_ok_status(2)[OF ok] loc by (simp add: vabs_def s_def)
  let ?v' = "(update_location (v1\<lparr>infections := d, burst_infections := burst_infections v1 + (if n = Infected then 1 else 0)\<rparr>))
      \<lparr>activity_bursts := activity_bursts v1 + 1\<rparr>"
  have b: "burst v = Inr ?v'" using r d(1) by (simp add: burst_def)
  have "virus_ok ?v'" using ok1 d(3,4) loc
    by (simp add: virus_ok_def update_location_def v1_def dvec_def)
  moreover have "vabs ?v' = spec_burst (vclass v) (vabs v)"
    using s0 d(2) loc node_of_char[of n]
    by (auto simp: vabs_def spec_burst_def update_location_def v1_def dvec_def h_def n_def fun_eq_iff Let_def)
  ultimately show ?thesis using b by (simp add: v1_def update_location_def)
qed

lemma burst_loop_ok:
  "virus_ok v \<Longrightarrow> \<exists>v'. burst_loop k v = Inr v' \<and> virus_ok v' \<and> vclass v' = vclass v \<and>
     activity_bursts v' = activity_bursts v + int k \<and> vabs v' = (spec_burst (vclass v) ^^ k) (vabs v)"
proof (induction k arbitrary: v)
  case 0
  then show ?case by simp
next
  case (Suc k)
  obtain v1 where v1: "burst v = Inr v1" "virus_ok v1" "vclass v1 = vclass v"
    "activity_bursts v1 = activity_bursts v + 1" "vabs v1 = spec_burst (vclass v) (vabs v)"
    using burst_ok[OF Suc.prems] by blast
  from Suc.IH[OF v1(2)] obtain v' where "burst_loop k v1 = Inr v'" "virus_ok v'" "vclass v' = vclass v1"
    "activity_bursts v' = activity_bursts v1 + int k" "vabs v' = (spec_burst (vclass v1) ^^ k) (vabs v1)"
    by blast
  then show ?case using v1 by (simp add: funpow_swap1)
qed

text \<open>C25 (refinement of the puzzle's carrier): from a well-formed virus,
  \<open>activity_burst n\<close> never raises, keeps the virus well-formed, counts its bursts,
  and reads as \<open>n\<close> bursts of the specification (none when \<open>n \<le> 0\<close>, as
  \<open>range(n)\<close> is then empty), for both classes.\<close>

theorem activity_burst_refines:
  assumes "virus_ok v"
  shows "\<exists>v'. activity_burst n v = Inr v' \<and> virus_ok v' \<and> activity_bursts v' = activity_bursts v + max n 0 \<and>
    vabs v' = (spec_burst (vclass v) ^^ nat n) (vabs v)"
  using burst_loop_ok[OF assms, of "nat n"] by (auto simp: activity_burst_def max_def)

lemma hash_cells_enum:
  "(\<forall>p \<in> set (concat (map (\<lambda>(i, line). map (\<lambda>j. (j, i)) (filter (\<lambda>j. py_strip line ! j = CHR ''#'') [0..<length (py_strip line)]))
      (enumerate k ls))). k \<le> snd p) \<and>
   distinct (concat (map (\<lambda>(i, line). map (\<lambda>j. (j, i)) (filter (\<lambda>j. py_strip line ! j = CHR ''#'') [0..<length (py_strip line)]))
      (enumerate k ls)))"
proof (induction ls arbitrary: k)
  case Nil
  then show ?case by simp
next
  case (Cons l ls)
  from Cons.IH[of "Suc k"] show ?case by (auto simp: distinct_map inj_on_def in_set_enumerate_eq)
qed

lemma distinct_hash_cells: "distinct (hash_cells lines)"
  using hash_cells_enum[of 0 lines] by (simp add: hash_cells_def)

lemma load_infection_states_ok:
  "load_infection_states lines = Inr d \<Longrightarrow> distinct (map fst d) \<and> (\<forall>(k, s) \<in> set d. s = CHR ''I'')"
  using distinct_hash_cells[of lines]
  by (auto simp: load_infection_states_def Let_def distinct_map inj_on_def split: if_splits)

text \<open>C26 (type safety of the dictionaries): for a map read by
  \<open>load_infection_states\<close>, both viruses run any number of bursts without a
  \<open>KeyError\<close> or \<open>IndexError\<close> (every status read has a rotation, every rotation a
  matrix, every status a successor).\<close>

theorem loaded_virus_never_raises:
  assumes "load_infection_states lines = Inr d"
  shows "(\<exists>v. activity_burst n (sporifica_init d) = Inr v) \<and> (\<exists>v. activity_burst n (super_init d) = Inr v)"
proof -
  have "virus_ok (sporifica_init d)" "virus_ok (super_init d)"
    using load_infection_states_ok[OF assms]
    by (auto simp: virus_ok_def sporifica_init_def super_init_def virus_init_def dvec_def heading_of_def states_of_def)
  then show ?thesis using burst_loop_ok by (auto simp: activity_burst_def)
qed

end
