(* ===== verification/Dance.thy ===== *)
theory Dance
  imports Prelude "HOL-Library.Multiset"
begin

text \<open>
  Day 16, "Permutation Promenade" (\<open>src/code/day16/day16.py\<close>). The deque of
  dancers is a list of characters, a move is the string the generator
  \<open>input_loader\<close> yields; \<open>lets_dance\<close> folds \<open>dance_step\<close> (the \<open>if\<close> chain of
  the loop) over the moves. \<open>repeated_dance\<close> runs \<open>rd_loop\<close>. \<open>dance_pow k\<close>, the
  state after \<open>k\<close> whole dances, is what \<open>repeated_dance\<close> should compute. \<open>lcm\<close>
  and \<open>lcmm\<close> are never called.
\<close>

section \<open>Moves\<close>

definition input_loader :: "string list \<Rightarrow> string list" where
  "input_loader lines = concat (map (\<lambda>line. py_split CHR '','' (py_strip line)) lines)"

text \<open>\<open>deque.rotate(n)\<close> turns right by \<open>n\<close> (modulo the length); HOL's
  \<open>rotate\<close> turns left.\<close>

definition spin :: "char list \<Rightarrow> int \<Rightarrow> char list" where
  "spin order_deque sz = rotate (nat ((- sz) mod int (length order_deque))) order_deque"

text \<open>The tuple assignment reads \<open>[b]\<close>, then \<open>[a]\<close>, then stores at \<open>a\<close> and at
  \<open>b\<close>, with the deque's index rule (negative indices count from the end).\<close>

definition exchange :: "char list \<Rightarrow> int \<Rightarrow> int \<Rightarrow> char list py" where
  "exchange order_iter a b =
     (case py_index order_iter b of Inl e \<Rightarrow> Inl e | Inr xb \<Rightarrow>
      case py_index order_iter a of Inl e \<Rightarrow> Inl e | Inr xa \<Rightarrow>
      case py_update order_iter a xb of Inl e \<Rightarrow> Inl e | Inr o1 \<Rightarrow> py_update o1 b xa)"

text \<open>\<open>deque.index(name)\<close>: the first dancer equal to the (one-letter) name.\<close>

fun index_from :: "char list \<Rightarrow> string \<Rightarrow> nat \<Rightarrow> int py" where
  "index_from [] name i = Inl ValueError"
| "index_from (x # xs) name i = (if [x] = name then Inr (int i) else index_from xs name (Suc i))"

definition deque_index :: "char list \<Rightarrow> string \<Rightarrow> int py" where
  "deque_index order_iter name = index_from order_iter name 0"

definition swap :: "char list \<Rightarrow> string \<Rightarrow> string \<Rightarrow> char list py" where
  "swap order_iter a b =
     (case deque_index order_iter a of Inl e \<Rightarrow> Inl e | Inr ia \<Rightarrow>
      case deque_index order_iter b of Inl e \<Rightarrow> Inl e | Inr ib \<Rightarrow> exchange order_iter ia ib)"

text \<open>Unpacking into two names: another length raises \<open>ValueError\<close>.\<close>

definition two :: "'a list \<Rightarrow> ('a \<times> 'a) py" where
  "two xs = (case xs of [x, y] \<Rightarrow> Inr (x, y) | _ \<Rightarrow> Inl ValueError)"

definition dance_step :: "char list \<Rightarrow> string \<Rightarrow> char list py" where
  "dance_step dancers dance_move =
     (case py_index dance_move 0 of Inl e \<Rightarrow> Inl e | Inr c \<Rightarrow>
      if c = CHR ''s'' then
        (case py_int (drop 1 dance_move) of Inl e \<Rightarrow> Inl e | Inr n \<Rightarrow> Inr (spin dancers n))
      else if c = CHR ''x'' then
        (case py_map py_int (py_split CHR ''/'' (drop 1 dance_move)) of Inl e \<Rightarrow> Inl e | Inr inds \<Rightarrow>
         case two inds of Inl e \<Rightarrow> Inl e | Inr (ind1, ind2) \<Rightarrow> exchange dancers ind1 ind2)
      else
        (case two (py_split CHR ''/'' (drop 1 dance_move)) of Inl e \<Rightarrow> Inl e
         | Inr (name1, name2) \<Rightarrow> swap dancers name1 name2))"

fun dance_loop :: "char list \<Rightarrow> string list \<Rightarrow> char list py" where
  "dance_loop dancers [] = Inr dancers"
| "dance_loop dancers (m # ms) = (case dance_step dancers m of Inl e \<Rightarrow> Inl e | Inr d \<Rightarrow> dance_loop d ms)"

definition lets_dance :: "char list \<Rightarrow> string list \<Rightarrow> string py" where
  "lets_dance init_state dance_moves = dance_loop init_state dance_moves"

text \<open>The \<open>for i in range(1, repetitions)\<close> loop of \<open>repeated_dance\<close>, with the
  list \<open>discovered_states\<close>; the first state seen again ends it.\<close>

function rd_loop :: "int \<Rightarrow> int \<Rightarrow> string list \<Rightarrow> string \<Rightarrow> string list \<Rightarrow> string py" where
  "rd_loop i repetitions dance_moves current_state discovered_states =
     (if i < repetitions then
        (case lets_dance current_state dance_moves of Inl e \<Rightarrow> Inl e | Inr cs \<Rightarrow>
         if cs \<in> set discovered_states then
           py_index discovered_states (repetitions mod int (length discovered_states))
         else rd_loop (i + 1) repetitions dance_moves cs (discovered_states @ [cs]))
      else Inr current_state)"
  by pat_completeness auto
termination by (relation "measure (\<lambda>(i, r, _). nat (r - i))") auto

declare rd_loop.simps [simp del]

definition repeated_dance :: "char list \<Rightarrow> string list \<Rightarrow> int \<Rightarrow> string py" where
  "repeated_dance init_state dance_moves repetitions = rd_loop 1 repetitions dance_moves init_state [init_state]"

section \<open>Specification\<close>

fun dance_pow :: "nat \<Rightarrow> string list \<Rightarrow> string \<Rightarrow> string py" where
  "dance_pow 0 moves s = Inr s"
| "dance_pow (Suc k) moves s = (case dance_pow k moves s of Inl e \<Rightarrow> Inl e | Inr t \<Rightarrow> lets_dance t moves)"

section \<open>Lemmas\<close>

lemma spin_moves_end:
  assumes "0 \<le> n" "n \<le> int (length xs)"
  shows "spin xs n = drop (length xs - nat n) xs @ take (length xs - nat n) xs"
proof (cases "n = 0 \<or> n = int (length xs)")
  case True
  then show ?thesis by (auto simp: spin_def)
next
  case False
  then have m: "(- n) mod int (length xs) = int (length xs) - n"
    using assms by (simp add: zmod_zminus1_eq_if mod_pos_pos_trivial)
  have k: "nat (int (length xs) - n) = length xs - nat n" using assms by simp
  have "length xs - nat n < length xs" using False assms by linarith
  then have "(length xs - nat n) mod length xs = length xs - nat n" by simp
  then show ?thesis using k m by (simp add: spin_def rotate_drop_take)
qed

lemma py_index_Inr_pos:
  "py_index xs a = Inr x \<Longrightarrow> \<exists>k < length xs. x = xs ! k \<and>
     (\<forall>ys y. length ys = length xs \<longrightarrow> py_update ys a y = Inr (ys[k := y]))"
  by (auto simp: py_index_def py_update_def Let_def split: if_splits intro!: exI[where x = "nat (if a < 0 then a + int (length xs) else a)"])

lemma exchange_mset:
  assumes "exchange xs a b = Inr ys"
  shows "mset ys = mset xs"
proof -
  obtain xb where b: "py_index xs b = Inr xb" using assms by (auto simp: exchange_def split: sum.splits)
  obtain xa where a: "py_index xs a = Inr xa" using assms b by (auto simp: exchange_def split: sum.splits)
  obtain kb where kb: "kb < length xs" "xb = xs ! kb" "\<forall>(ys :: char list) y. length ys = length xs \<longrightarrow> py_update ys b y = Inr (ys[kb := y])"
    using py_index_Inr_pos[OF b] by blast
  obtain ka where ka: "ka < length xs" "xa = xs ! ka" "\<forall>(ys :: char list) y. length ys = length xs \<longrightarrow> py_update ys a y = Inr (ys[ka := y])"
    using py_index_Inr_pos[OF a] by blast
  have u1: "py_update xs a (xs ! kb) = Inr (xs[ka := xs ! kb])" using ka(3) by simp
  have u2: "py_update (xs[ka := xs ! kb]) b (xs ! ka) = Inr (xs[ka := xs ! kb, kb := xs ! ka])" using kb(3) by simp
  have "ys = xs[ka := xs ! kb, kb := xs ! ka]" using assms a b ka(2) kb(2) u1 u2 by (simp add: exchange_def)
  then show ?thesis using mset_swap[OF kb(1) ka(1)] by simp
qed

lemma mset_rotate [simp]: "mset (rotate n xs) = mset xs"
proof (induction n)
  case (Suc n)
  then show ?case by (cases "rotate n xs") simp_all
qed simp

lemma dance_step_mset:
  "dance_step xs m = Inr ys \<Longrightarrow> mset ys = mset xs"
  by (auto simp: dance_step_def spin_def swap_def exchange_mset split: sum.splits if_splits prod.splits)

lemma lets_dance_mset:
  "lets_dance xs ms = Inr ys \<Longrightarrow> mset ys = mset xs"
  unfolding lets_dance_def
proof (induction xs ms rule: dance_loop.induct)
  case (2 dancers m ms)
  then show ?case by (auto simp: dance_step_mset split: sum.splits)
qed simp

lemma dance_pow_add:
  "dance_pow (k + j) moves s = (case dance_pow k moves s of Inl e \<Rightarrow> Inl e | Inr t \<Rightarrow> dance_pow j moves t)"
  by (induction j) (auto split: sum.splits)

lemma dance_pow_mult:
  "dance_pow c moves s = Inr s \<Longrightarrow> dance_pow (q * c) moves s = Inr s"
  by (induction q) (simp_all add: dance_pow_add add.commute)

lemma dance_pow_mod:
  assumes "dance_pow c moves s = Inr s"
  shows "dance_pow k moves s = dance_pow (k mod c) moves s"
proof -
  have "dance_pow k moves s = dance_pow ((k div c) * c + k mod c) moves s" by simp
  also have "\<dots> = dance_pow (k mod c) moves s" by (simp only: dance_pow_add dance_pow_mult[OF assms]) simp
  finally show ?thesis .
qed

lemma dance_pow_Inl:
  "dance_pow k moves s = Inl e \<Longrightarrow> dance_pow (k + j) moves s = Inl e"
  by (simp add: dance_pow_add)

lemma dance_pow_total:
  assumes c: "dance_pow c moves s = Inr s" "1 \<le> c"
  shows "\<exists>t. dance_pow k moves s = Inr t"
proof (cases "dance_pow (k mod c) moves s")
  case (Inl e)
  have "k mod c < c" using c(2) by simp
  then have "dance_pow c moves s = Inl e" using dance_pow_Inl[OF Inl, of "c - k mod c"] by simp
  then show ?thesis using c(1) by simp
next
  case (Inr t)
  then show ?thesis using dance_pow_mod[OF c(1), of k] by simp
qed

lemma rd_loop_cycle:
  assumes all: "\<And>k. dance_pow k moves s0 = Inr (st k)" and c: "st c = s0" "1 \<le> c"
    and dist: "distinct (map st [0..<c])" and per: "\<And>k. st k = st (k mod c)"
  shows "1 \<le> i \<Longrightarrow> i \<le> int c \<Longrightarrow> i = 1 \<or> i \<le> reps \<Longrightarrow>
    rd_loop i reps moves (st (nat i - 1)) (map st [0..<nat i]) =
      (if int c < reps then Inr (st (nat reps)) else Inr (st (nat reps - 1)))"
proof (induction "nat (reps - i)" arbitrary: i rule: less_induct)
  case less
  have step: "lets_dance (st k) moves = Inr (st (Suc k))" for k
    using all[of "Suc k"] all[of k] by simp
  show ?case
  proof (cases "i < reps")
    case False
    then have "nat reps - 1 = nat i - 1" using less.prems by auto
    then show ?thesis using False less.prems by (subst rd_loop.simps) simp
  next
    case True
    have ld: "lets_dance (st (nat i - 1)) moves = Inr (st (nat i))"
      using step[of "nat i - 1"] less.prems(1) by (simp add: Suc_diff_1)
    show ?thesis
    proof (cases "i = int c")
      case True
      have "st (nat i) \<in> set (map st [0..<nat i])" using c \<open>i = int c\<close> per[of c]
        by (auto intro!: image_eqI[where x = 0])
      moreover have "map st [0..<nat i] ! nat (reps mod int c) = st (nat reps)"
        using c(2) per[of "nat reps"] \<open>i = int c\<close> \<open>i < reps\<close> by (simp add: nat_mod_distrib)
      ultimately show ?thesis using ld \<open>i < reps\<close> \<open>i = int c\<close> c(2)
        by (subst rd_loop.simps) (simp add: py_simps)
    next
      case False
      then have lt: "nat i < c" using less.prems by simp
      have "st (nat i) \<notin> set (map st [0..<nat i])" using dist lt
        by (auto simp: distinct_conv_nth)
      moreover have "rd_loop (i + 1) reps moves (st (nat (i + 1) - 1)) (map st [0..<nat (i + 1)]) =
          (if int c < reps then Inr (st (nat reps)) else Inr (st (nat reps - 1)))"
        using less.hyps[of "i + 1"] less.prems False \<open>i < reps\<close> by simp
      ultimately show ?thesis using ld \<open>i < reps\<close> less.prems
        by (subst rd_loop.simps) (simp add: nat_add_distrib)
    qed
  qed
qed

text \<open>C27 (functional behaviour of \<open>repeated_dance\<close> on both branches): when the
  dance brings the dancers back after \<open>c \<ge> 1\<close> dances, through \<open>c\<close> distinct
  states, \<open>repeated_dance\<close> returns the state after \<open>repetitions\<close> dances if the
  cycle is seen (\<open>c < repetitions\<close>), and otherwise the state after
  \<open>repetitions - 1\<close> dances: the loop stops one dance short.\<close>

theorem repeated_dance_cycle:
  assumes cyc: "dance_pow c moves s0 = Inr s0" and c1: "1 \<le> c"
    and dist: "distinct (map (\<lambda>k. dance_pow k moves s0) [0..<c])"
  shows "repeated_dance s0 moves reps =
    (if int c < reps then dance_pow (nat reps) moves s0 else dance_pow (nat reps - 1) moves s0)"
proof -
  define st where "st k = projr (dance_pow k moves s0)" for k
  have all: "dance_pow k moves s0 = Inr (st k)" for k
    using dance_pow_total[OF cyc c1, of k] by (auto simp: st_def)
  have c: "st c = s0" using cyc by (simp add: st_def)
  have eq: "map (\<lambda>k. dance_pow k moves s0) [0..<c] = map Inr (map st [0..<c])"
    by (simp add: all)
  have d: "distinct (map st [0..<c])"
    using dist distinct_map[of Inr "map st [0..<c]"] unfolding eq by blast
  have per: "st k = st (k mod c)" for k using dance_pow_mod[OF cyc, of k] by (simp add: st_def)
  have "rd_loop 1 reps moves (st (nat 1 - 1)) (map st [0..<nat 1]) =
      (if int c < reps then Inr (st (nat reps)) else Inr (st (nat reps - 1)))"
    by (rule rd_loop_cycle[OF all c c1 d per]) (use c1 in simp_all)
  moreover have "st 0 = s0" by (simp add: st_def)
  ultimately show ?thesis by (simp add: repeated_dance_def all)
qed

end
