(* ===== verification/Passphrase.thy ===== *)
theory Passphrase
  imports Prelude "HOL-Library.Multiset"
begin

text \<open>
  Day 4, "High-Entropy Passphrases" (\<open>src/code/day4/day4.py\<close>): the phrases of the
  file's lines, the two validity tests, and the count. The lemmas say what the
  puzzle asks: a phrase passes part 1 when its words are distinct and
  \<open>valid_phrase\<close> when no two words are anagrams of each other.
\<close>

section \<open>Phrases and tests\<close>

definition line_reader :: "string list \<Rightarrow> string list list" where
  "line_reader lines = map (\<lambda>line. split_ws (py_strip line)) lines"

text \<open>\<open>len(phrase) == len(set(phrase))\<close>.\<close>

definition has_repeated_words :: "string list \<Rightarrow> bool" where
  "has_repeated_words phrase = (if length phrase = card (set phrase) then False else True)"

text \<open>A \<open>collections.Counter\<close> of a word is its multiset of letters; the loop
  asks whether a counter occurs again later in the list.\<close>

fun anagram_loop :: "char multiset list \<Rightarrow> bool" where
  "anagram_loop [] = False"
| "anagram_loop (c # cs) = (if c \<in> set cs then True else anagram_loop cs)"

definition has_anagrams :: "string list \<Rightarrow> bool" where
  "has_anagrams phrase = anagram_loop (map mset phrase)"

definition valid_phrase :: "string list \<Rightarrow> bool" where
  "valid_phrase phrase = (if has_repeated_words phrase then False else if has_anagrams phrase then False else True)"

text \<open>\<open>sum(1 for line in lines if valid_func(line))\<close>.\<close>

definition count_valid_phrases :: "string list \<Rightarrow> (string list \<Rightarrow> bool) \<Rightarrow> int" where
  "count_valid_phrases lines valid_func = sum_list (map (\<lambda>line. 1) (filter valid_func (line_reader lines)))"

section \<open>Lemmas\<close>

lemma has_repeated_words_iff: "has_repeated_words phrase \<longleftrightarrow> \<not> distinct phrase"
  unfolding has_repeated_words_def by (metis distinct_card card_distinct)

lemma anagram_loop_iff: "anagram_loop cs \<longleftrightarrow> \<not> distinct cs"
  by (induction cs) auto

lemma valid_phrase_iff: "valid_phrase phrase \<longleftrightarrow> distinct (map mset phrase)"
  by (auto simp: valid_phrase_def has_repeated_words_iff has_anagrams_def anagram_loop_iff dest: distinct_map[THEN iffD1])

lemma valid_phrase_pairs:
  "valid_phrase phrase \<longleftrightarrow> (\<forall>i j. i < j \<and> j < length phrase \<longrightarrow> mset (phrase ! i) \<noteq> mset (phrase ! j))"
  unfolding valid_phrase_iff distinct_conv_nth by (auto simp: nat_neq_iff) (metis less_trans)

lemma count_valid_phrases_le: "0 \<le> count_valid_phrases lines f \<and> count_valid_phrases lines f \<le> int (length lines)"
  by (simp add: count_valid_phrases_def sum_list_triv line_reader_def)

end
