(* ===== verification/HexGrid.thy ===== *)
theory HexGrid
  imports Prelude Complex_Main
begin

text \<open>
  Day 11, "Hex Ed" (\<open>src/code/day11/day11.py\<close>): the directions from the file's
  lines, the walk \<open>traverse_grid\<close> with its running maximum, \<open>hex_distance\<close>
  and \<open>distance_traversed\<close>. \<open>hex_norm\<close> is the usual hex-grid distance,
  the largest of the three axial differences; the lemmas show that the code's
  formula computes it, that one step moves it by at most one, and what the loop
  returns or raises.
\<close>

section \<open>The walk\<close>

text \<open>\<open>str.lower()\<close> on ASCII letters.\<close>

definition py_lower :: "string \<Rightarrow> string" where
  "py_lower s = map (\<lambda>c. let n = (of_char c :: nat) in if 65 \<le> n \<and> n \<le> 90 then char_of (n + 32) else c) s"

definition input_loader11 :: "string list \<Rightarrow> string list" where
  "input_loader11 lines = concat (map (\<lambda>line. map py_lower (py_split CHR '','' (py_strip line))) lines)"

definition instructions_map :: "(string, int list) pydict" where
  "instructions_map = [(''n'', [1, -1]), (''ne'', [1, 0]), (''se'', [0, 1]), (''s'', [-1, 1]), (''sw'', [-1, 0]), (''nw'', [0, -1])]"

text \<open>Axial coordinates; \<open>/ 2\<close> is true division, so the distance is a real
  number (a float in Python).\<close>

definition hex_distance :: "int list \<Rightarrow> int list \<Rightarrow> real" where
  "hex_distance a b = real_of_int (\<bar>a ! 0 - b ! 0\<bar> + \<bar>sum_list a - sum_list b\<bar> + \<bar>a ! 1 - b ! 1\<bar>) / 2"

text \<open>The \<open>for\<close> loop of \<open>traverse_grid\<close>: the position, moved by
  \<open>instructions_map[instruction]\<close> (a \<open>KeyError\<close> for an unknown direction), and
  the largest distance so far.\<close>

fun traverse_loop :: "int list \<Rightarrow> int list \<Rightarrow> real \<Rightarrow> string list \<Rightarrow> (int list \<times> real) py" where
  "traverse_loop initial_position current_location max_dist [] = Inr (current_location, max_dist)"
| "traverse_loop initial_position current_location max_dist (instruction # ins) =
     (case d_lookup instructions_map instruction of Inl e \<Rightarrow> Inl e | Inr step \<Rightarrow>
      let loc = map (\<lambda>(i, j). i + j) (zip current_location step);
          current_distance = hex_distance initial_position loc
      in traverse_loop initial_position loc (if current_distance > max_dist then current_distance else max_dist) ins)"

definition traverse_grid :: "string list \<Rightarrow> int list \<Rightarrow> (int list \<times> real) py" where
  "traverse_grid instructions initial_position = traverse_loop initial_position initial_position 0 instructions"

definition distance_traversed :: "string list \<Rightarrow> real py" where
  "distance_traversed instructions =
     (case traverse_grid instructions [0, 0] of Inl e \<Rightarrow> Inl e | Inr (final_position, _) \<Rightarrow> Inr (hex_distance [0, 0] final_position))"

section \<open>Specification\<close>

definition hex_norm :: "int \<Rightarrow> int \<Rightarrow> int" where
  "hex_norm q r = max \<bar>q\<bar> (max \<bar>r\<bar> \<bar>q + r\<bar>)"

section \<open>Lemmas\<close>

lemma hex_distance_norm:
  "length a = 2 \<Longrightarrow> length b = 2 \<Longrightarrow> hex_distance a b = real_of_int (hex_norm (a ! 0 - b ! 0) (a ! 1 - b ! 1))"
proof -
  assume "length a = 2" "length b = 2"
  then have s: "sum_list a = a ! 0 + a ! 1" "sum_list b = b ! 0 + b ! 1"
    by (auto simp: numeral_2_eq_2 length_Suc_conv)
  have "\<bar>x\<bar> + \<bar>x + y\<bar> + \<bar>y\<bar> = 2 * max \<bar>x\<bar> (max \<bar>y\<bar> \<bar>x + y\<bar>)" for x y :: int
    by (simp add: abs_if max_def)
  from this[of "a ! 0 - b ! 0" "a ! 1 - b ! 1"] show ?thesis
    unfolding hex_distance_def hex_norm_def s by (simp add: algebra_simps)
qed

lemma hex_norm_step:
  "(d, s) \<in> set instructions_map \<Longrightarrow> hex_norm (q - s ! 0) (r - s ! 1) \<le> hex_norm q r + 1"
  by (auto simp: instructions_map_def hex_norm_def)

lemma instructions_map_len: "(d, s) \<in> set instructions_map \<Longrightarrow> length s = 2"
  by (auto simp: instructions_map_def)

lemma traverse_loop_ok:
  "length init = 2 \<Longrightarrow> length cur = 2 \<Longrightarrow> set ins \<subseteq> fst ` set instructions_map \<Longrightarrow>
   \<exists>loc m. traverse_loop init cur md ins = Inr (loc, m) \<and> length loc = 2 \<and>
     hex_distance init loc \<le> hex_distance init cur + real (length ins) \<and> md \<le> m \<and>
     (ins \<noteq> [] \<longrightarrow> hex_distance init loc \<le> m)"
proof (induction "ins" arbitrary: cur md)
  case Nil
  then show ?case by simp
next
  case (Cons i ins)
  obtain s where s: "map_of instructions_map i = Some s" using Cons.prems(3)
    by (auto simp: instructions_map_def)
  have sl: "(i, s) \<in> set instructions_map" using map_of_SomeD[OF s] .
  define loc where "loc = map (\<lambda>(i, j). i + j) (zip cur s)"
  have ll: "length loc = 2" using Cons.prems(2) instructions_map_len[OF sl] by (simp add: loc_def)
  have l01: "loc ! 0 = cur ! 0 + s ! 0" "loc ! 1 = cur ! 1 + s ! 1"
    using Cons.prems(2) instructions_map_len[OF sl] by (simp_all add: loc_def)
  have "hex_norm (init ! 0 - loc ! 0) (init ! 1 - loc ! 1) \<le> hex_norm (init ! 0 - cur ! 0) (init ! 1 - cur ! 1) + 1"
    using hex_norm_step[OF sl, of "init ! 0 - cur ! 0" "init ! 1 - cur ! 1"] unfolding l01 by (simp add: algebra_simps)
  then have step: "hex_distance init loc \<le> hex_distance init cur + 1"
    unfolding hex_distance_norm[OF Cons.prems(1) ll] hex_distance_norm[OF Cons.prems(1) Cons.prems(2)] by linarith
  define md' where "md' = (if hex_distance init loc > md then hex_distance init loc else md)"
  from Cons.IH[OF Cons.prems(1) ll, of md'] Cons.prems(3) obtain loc' m where
    r: "traverse_loop init loc md' ins = Inr (loc', m)" "length loc' = 2"
       "hex_distance init loc' \<le> hex_distance init loc + real (length ins)" "md' \<le> m"
       "ins \<noteq> [] \<longrightarrow> hex_distance init loc' \<le> m"
    by auto
  have "traverse_loop init cur md (i # ins) = Inr (loc', m)"
    using s r(1) unfolding md'_def loc_def by (simp add: d_lookup_def Let_def)
  moreover have "hex_distance init loc' \<le> m"
    using r(1,4,5) by (cases "ins = []") (auto simp: md'_def split: if_splits)
  ultimately show ?case using r step by (auto simp: md'_def split: if_splits)
qed

lemma traverse_loop_KeyError:
  "\<exists>i \<in> set ins. i \<notin> fst ` set instructions_map \<Longrightarrow> traverse_loop init cur md ins = Inl KeyError"
proof (induction ins arbitrary: cur md)
  case (Cons i ins)
  show ?case
  proof (cases "i \<in> fst ` set instructions_map")
    case True
    then obtain s where "map_of instructions_map i = Some s" by (auto simp: instructions_map_def)
    then show ?thesis using Cons True by (simp add: d_lookup_def Let_def)
  next
    case False
    then have "map_of instructions_map i = None" by (simp add: map_of_eq_None_iff)
    then show ?thesis by (simp add: d_lookup_def)
  qed
qed simp

lemma distance_traversed_bound:
  "set ins \<subseteq> fst ` set instructions_map \<Longrightarrow>
   \<exists>d. distance_traversed ins = Inr d \<and> 0 \<le> d \<and> d \<le> real (length ins)"
proof -
  assume "set ins \<subseteq> fst ` set instructions_map"
  from traverse_loop_ok[of "[0, 0]" "[0, 0]" ins 0, OF _ _ this] obtain loc m where
    "traverse_loop [0, 0] [0, 0] 0 ins = Inr (loc, m)" "hex_distance [0, 0] loc \<le> hex_distance [0, 0] [0, 0] + real (length ins)"
    by auto
  moreover have "hex_distance [0, 0] [0, 0] = 0" by (simp add: hex_distance_def)
  moreover have "0 \<le> hex_distance [0, 0] loc" by (simp add: hex_distance_def)
  ultimately show ?thesis by (simp add: distance_traversed_def traverse_grid_def)
qed

end
