(* ===== verification/Checksum.thy ===== *)
theory Checksum
  imports Prelude Complex_Main
begin

text \<open>
  Day 2, "Corruption Checksum" (\<open>src/code/day2/day2.py\<close>): the rows from the
  file's lines, \<open>checksum\<close> over them, the part-1 spread, and the classes
  \<open>divisors\<close> (a cache, threaded as state) and \<open>divisor_checker\<close>. The lemmas show
  that the cache only ever holds the true divisor sets, that \<open>check_line\<close>
  returns \<open>a / b\<close> for the one pair of the line with \<open>b\<close> a divisor of \<open>a\<close> in
  \<open>range(2, a)\<close>, whatever the iteration order, and what the two checksums sum.
\<close>

section \<open>Rows, checksum and the checkers\<close>

definition line_reader2 :: "string list \<Rightarrow> int list py list" where
  "line_reader2 lines = map (\<lambda>line. py_map py_int (split_ws (py_strip line))) lines"

text \<open>\<open>sum(func(res) for res in line_reader(file))\<close>: the generator parses a line,
  then \<open>func\<close> runs on it, line after line. \<open>func\<close> may carry state (the bound
  method \<open>checker.check_line\<close> keeps its cache), threaded as \<open>'s\<close>; Python's
  sum mixes the \<open>int\<close> and \<open>float\<close> results, here one numeric type \<open>'a\<close>.\<close>

fun checksum_loop :: "('s \<Rightarrow> int list \<Rightarrow> ('s \<times> 'a :: comm_monoid_add) py) \<Rightarrow> 's \<Rightarrow> 'a \<Rightarrow> int list py list \<Rightarrow> ('s \<times> 'a) py" where
  "checksum_loop func s acc [] = Inr (s, acc)"
| "checksum_loop func s acc (r # rs) = (case r of Inl e \<Rightarrow> Inl e | Inr res \<Rightarrow>
     case func s res of Inl e \<Rightarrow> Inl e | Inr (s', v) \<Rightarrow> checksum_loop func s' (acc + v) rs)"

definition checksum :: "string list \<Rightarrow> ('s \<Rightarrow> int list \<Rightarrow> ('s \<times> 'a :: comm_monoid_add) py) \<Rightarrow> 's \<Rightarrow> ('s \<times> 'a) py" where
  "checksum lines func s = checksum_loop func s 0 (line_reader2 lines)"

definition py_min :: "int list \<Rightarrow> int py" where
  "py_min xs = (case xs of [] \<Rightarrow> Inl ValueError | x # ys \<Rightarrow> Inr (fold min ys x))"

text \<open>The part-1 function \<open>lambda x: max(x) - min(x)\<close> of \<open>__main__\<close>.\<close>

definition spread :: "unit \<Rightarrow> int list \<Rightarrow> (unit \<times> int) py" where
  "spread u x = (case py_max x of Inl e \<Rightarrow> Inl e | Inr mx \<Rightarrow> case py_min x of Inl e \<Rightarrow> Inl e | Inr mn \<Rightarrow> Inr ((), mx - mn))"

text \<open>Class \<open>divisors\<close>: a memo of the divisors in \<open>range(2, x)\<close>; the unused
  \<open>inv_cache\<close> is left out.\<close>

record divisors =
  cache :: "(int, int set) pydict"

definition divisors_init :: divisors where
  "divisors_init = \<lparr>cache = []\<rparr>"

definition divs_of :: "int \<Rightarrow> int set" where
  "divs_of x = set (filter (\<lambda>i. x mod i = 0) [2..x - 1])"

definition set_divisors :: "divisors \<Rightarrow> int \<Rightarrow> divisors" where
  "set_divisors c x = (if map_of (cache c) x = None then c\<lparr>cache := d_set (cache c) x (divs_of x)\<rparr> else c)"

definition set_divisors_iter :: "divisors \<Rightarrow> int list \<Rightarrow> divisors" where
  "set_divisors_iter c iterable = fold (\<lambda>item c. set_divisors c item) iterable c"

definition get_divisors :: "divisors \<Rightarrow> int \<Rightarrow> (divisors \<times> int set) py" where
  "get_divisors c x = (let c' = set_divisors c x in case d_lookup (cache c') x of Inl e \<Rightarrow> Inl e | Inr ds \<Rightarrow> Inr (c', ds))"

text \<open>The loop of \<open>divisor_checker.check_line\<close>, over the items in the order
  the set is iterated in; \<open>item / list(divisor)[0]\<close> is true division.\<close>

fun check_items :: "divisors \<Rightarrow> int set \<Rightarrow> int list \<Rightarrow> (divisors \<times> real) py" where
  "check_items c line_items [] = Inr (c, 0)"
| "check_items c line_items (item # items) =
     (let other_items = line_items - {item} in
      case get_divisors c item of Inl e \<Rightarrow> Inl e | Inr (c', divs) \<Rightarrow>
      let divisor = divs \<inter> other_items in
      if card divisor > 0 then Inr (c', real_of_int item / real_of_int (hd (sorted_list_of_set divisor)))
      else check_items c' line_items items)"

text \<open>\<open>set(line)\<close> is iterated in ascending order here, which is CPython's
  order for a set of small non-negative integers; the lemmas below show the
  result does not depend on the order when the line has one dividing pair.\<close>

definition check_line :: "divisors \<Rightarrow> int list \<Rightarrow> (divisors \<times> real) py" where
  "check_line c line =
     (let line_items = set line; c' = set_divisors_iter c (sorted_list_of_set line_items)
      in check_items c' line_items (sorted_list_of_set line_items))"

section \<open>Specification\<close>

text \<open>\<open>divides_pair L a b\<close>: \<open>b\<close> divides \<open>a\<close> as the code looks for it (a divisor
  in \<open>range(2, a)\<close> among the other items).\<close>

definition cache_ok :: "divisors \<Rightarrow> bool" where
  "cache_ok c \<longleftrightarrow> (\<forall>(x, ds) \<in> set (cache c). ds = divs_of x)"

definition divides_pair :: "int set \<Rightarrow> int \<Rightarrow> int \<Rightarrow> bool" where
  "divides_pair L a b \<longleftrightarrow> a \<in> L \<and> b \<in> L \<and> a \<noteq> b \<and> b \<in> divs_of a"

definition unique_pair :: "int list \<Rightarrow> int \<Rightarrow> int \<Rightarrow> bool" where
  "unique_pair line a b \<longleftrightarrow> divides_pair (set line) a b \<and> (\<forall>a' b'. divides_pair (set line) a' b' \<longrightarrow> a' = a \<and> b' = b)"

section \<open>Lemmas\<close>

lemma divs_of_iff: "i \<in> divs_of x \<longleftrightarrow> 2 \<le> i \<and> i < x \<and> i dvd x"
  by (auto simp: divs_of_def dvd_eq_mod_eq_0)

lemma finite_divs_of [simp]: "finite (divs_of x)"
  unfolding divs_of_def by (rule List.finite_set)

lemma cache_ok_set_divisors: "cache_ok c \<Longrightarrow> cache_ok (set_divisors c x)"
  using set_update_sub[of x "divs_of x" "cache c"]
  by (auto simp: cache_ok_def set_divisors_def d_set_def)

lemma cache_ok_set_divisors_iter: "cache_ok c \<Longrightarrow> cache_ok (set_divisors_iter c xs)"
  unfolding set_divisors_iter_def by (induction xs arbitrary: c) (simp_all add: cache_ok_set_divisors)

lemma get_divisors_ok:
  assumes "cache_ok c"
  shows "\<exists>c'. get_divisors c x = Inr (c', divs_of x) \<and> cache_ok c'"
proof -
  have "\<exists>ds. map_of (cache (set_divisors c x)) x = Some ds"
    by (cases "map_of (cache c) x") (auto simp: set_divisors_def map_of_d_set)
  then obtain ds where ds: "map_of (cache (set_divisors c x)) x = Some ds" by blast
  have "ds = divs_of x" using cache_ok_set_divisors[OF assms, of x] map_of_SomeD[OF ds]
    by (auto simp: cache_ok_def)
  then show ?thesis using ds cache_ok_set_divisors[OF assms, of x] by (simp add: get_divisors_def d_lookup_def)
qed

lemma check_items_found:
  assumes "cache_ok c" "\<forall>a' b'. divides_pair L a' b' \<longrightarrow> a' = a \<and> b' = b" "divides_pair L a b"
    "a \<in> set items" "set items \<subseteq> L"
  shows "\<exists>c'. check_items c L items = Inr (c', real_of_int a / real_of_int b) \<and> cache_ok c'"
  using assms(1,4,5)
proof (induction items arbitrary: c)
  case Nil
  then show ?case by simp
next
  case (Cons i items)
  obtain c' where g: "get_divisors c i = Inr (c', divs_of i)" "cache_ok c'" using get_divisors_ok[OF Cons.prems(1)] by blast
  show ?case
  proof (cases "i = a")
    case True
    have D: "divs_of a \<inter> (L - {a}) = {b}" using assms(2,3) unfolding divides_pair_def by blast
    have g1: "get_divisors c a = Inr (c', divs_of a)" using g(1) True by simp
    show ?thesis unfolding True check_items.simps Let_def g1 sum.case prod.case D using g(2) by simp
  next
    case False
    have iL: "i \<in> L" using Cons.prems(3) by simp
    have D: "divs_of i \<inter> (L - {i}) = {}"
    proof (rule equals0I)
      fix x assume "x \<in> divs_of i \<inter> (L - {i})"
      then show False using assms(2) iL False unfolding divides_pair_def by auto
    qed
    have "a \<in> set items" "set items \<subseteq> L" using Cons.prems(2,3) False by simp_all
    then obtain c'' where "check_items c' L items = Inr (c'', real_of_int a / real_of_int b)" "cache_ok c''"
      using Cons.IH[OF g(2)] by blast
    then show ?thesis unfolding check_items.simps Let_def g(1) sum.case prod.case D by simp
  qed
qed

lemma check_items_none:
  assumes "cache_ok c" "set items \<subseteq> L" "\<forall>a \<in> set items. \<forall>b. \<not> divides_pair L a b"
  shows "\<exists>c'. check_items c L items = Inr (c', 0) \<and> cache_ok c'"
  using assms
proof (induction items arbitrary: c)
  case (Cons i items)
  obtain c' where g: "get_divisors c i = Inr (c', divs_of i)" "cache_ok c'" using get_divisors_ok[OF Cons.prems(1)] by blast
  have iL: "i \<in> L" using Cons.prems(2) by simp
  have D: "divs_of i \<inter> (L - {i}) = {}"
  proof (rule equals0I)
    fix x assume "x \<in> divs_of i \<inter> (L - {i})"
    then show False using Cons.prems(3) iL unfolding divides_pair_def by auto
  qed
  have "set items \<subseteq> L" "\<forall>a \<in> set items. \<forall>b. \<not> divides_pair L a b" using Cons.prems(2,3) by simp_all
  then obtain c'' where "check_items c' L items = Inr (c'', 0)" "cache_ok c''"
    using Cons.IH[OF g(2)] by blast
  then show ?case unfolding check_items.simps Let_def g(1) sum.case prod.case D by simp
qed simp

lemma check_line_unique:
  assumes "cache_ok c" "\<forall>a' b'. divides_pair (set line) a' b' \<longrightarrow> a' = a \<and> b' = b" "divides_pair (set line) a b"
  shows "\<exists>c'. check_line c line = Inr (c', real_of_int a / real_of_int b) \<and> cache_ok c'"
proof -
  have "a \<in> set (sorted_list_of_set (set line))" "set (sorted_list_of_set (set line)) \<subseteq> set line"
    using assms(3) by (simp_all add: divides_pair_def)
  from check_items_found[OF cache_ok_set_divisors_iter[OF assms(1)] assms(2,3) this] show ?thesis
    by (simp add: check_line_def Let_def)
qed

lemma checksum_loop_check_line:
  "cache_ok c \<Longrightarrow> list_all2 (\<lambda>r (a, b). \<exists>xs. r = Inr xs \<and> unique_pair xs a b) rows pairs \<Longrightarrow>
   \<exists>c'. checksum_loop check_line c acc rows = Inr (c', acc + sum_list (map (\<lambda>(a, b). real_of_int a / real_of_int b) pairs))"
proof (induction rows arbitrary: pairs c acc)
  case Nil
  then show ?case by simp
next
  case (Cons r rows)
  obtain p ps where pp: "pairs = p # ps" using Cons.prems(2) by (cases pairs) auto
  obtain a b where p: "p = (a, b)" by (cases p)
  obtain xs where xs: "r = Inr xs" "unique_pair xs a b" using Cons.prems(2) pp p by auto
  obtain c1 where c1: "check_line c xs = Inr (c1, real_of_int a / real_of_int b)" "cache_ok c1"
    using check_line_unique[OF Cons.prems(1)] xs(2) unfolding unique_pair_def by blast
  obtain c' where "checksum_loop check_line c1 (acc + real_of_int a / real_of_int b) rows =
      Inr (c', acc + real_of_int a / real_of_int b + sum_list (map (\<lambda>(a, b). real_of_int a / real_of_int b) ps))"
    using Cons.IH[OF c1(2)] Cons.prems(2) pp by auto
  then show ?case using xs c1 pp p by (simp add: add.assoc)
qed

lemma py_min_Inr: "xs \<noteq> [] \<Longrightarrow> py_min xs = Inr (Min (set xs))"
  by (cases xs) (simp_all add: py_min_def Min.set_eq_fold[symmetric])

lemma spread_Inr: "x \<noteq> [] \<Longrightarrow> spread u x = Inr ((), Max (set x) - Min (set x))"
  by (simp add: spread_def py_max_Inr py_min_Inr)

lemma checksum_loop_spread:
  "\<forall>r \<in> set rows. \<exists>xs. r = Inr xs \<and> xs \<noteq> [] \<Longrightarrow>
   checksum_loop spread u acc rows = Inr ((), acc + sum_list (map (\<lambda>r. Max (set (projr r)) - Min (set (projr r))) rows))"
proof (induction rows arbitrary: u acc)
  case (Cons r rows)
  then obtain xs where "r = Inr xs" "xs \<noteq> []" by auto
  then show ?case using Cons by (simp add: spread_Inr add.assoc)
qed simp

end
