(* ===== verification/Spiral.thy ===== *)
theory Spiral
  imports Prelude Complex_Main
begin

text \<open>
  Day 3, "Spiral Memory" (\<open>src/code/day3/day3-p1.py\<close> and \<open>day3-p2.py\<close>). Part 1
  computes the distance of square \<open>x\<close> from the centre in closed form
  (\<open>center_distance\<close>); part 2 walks the spiral with the generator
  \<open>generate_coordinates\<close>, writes neighbour sums through the class
  \<open>spiralizer\<close> and stops at the first value not below its input
  (\<open>find_bigger\<close>). The lemmas show that the generator always yields again and
  moves one step each time; the root theory checks the two parts against each
  other on the first squares.
\<close>

section \<open>Part 1: \<open>center_distance\<close>\<close>

definition manhattan_distance :: "real list \<Rightarrow> real list \<Rightarrow> real" where
  "manhattan_distance x1 x2 = \<bar>x1 ! 0 - x2 ! 0\<bar> + \<bar>x1 ! 1 - x2 ! 1\<bar>"

text \<open>\<open>math.floor(x ** .5)\<close> is the integer square root, and \<open>x ** .5 != width\<close>
  says \<open>x\<close> is no perfect square: both exact while the float square root is
  (for \<open>x < 2 ^ 52\<close>). A negative \<open>x\<close> makes \<open>x ** .5\<close> complex, and \<open>floor\<close>
  raises \<open>TypeError\<close>; \<open>x = 0\<close> divides by \<open>width_dist = 0\<close>.\<close>

function isqrt_from :: "nat \<Rightarrow> nat \<Rightarrow> nat" where
  "isqrt_from k n = (if (k + 1) * (k + 1) \<le> n then isqrt_from (k + 1) n else k)"
  by pat_completeness auto
termination
proof (relation "measure (\<lambda>(k, n). n - k)")
  fix k n :: nat
  assume "(k + 1) * (k + 1) \<le> n"
  moreover have "k + 1 \<le> (k + 1) * (k + 1)" by simp
  ultimately show "((k + 1, n), k, n) \<in> measure (\<lambda>(k, n). n - k)" by simp
qed simp

definition isqrt :: "int \<Rightarrow> int" where
  "isqrt x = int (isqrt_from 0 (nat x))"

definition center_distance :: "int \<Rightarrow> real py" where
  "center_distance x =
     (if x = 1 then Inr 0
      else if x < 0 then Inl TypeError
      else let w = isqrt x;
               width = (if w mod 2 = 0 \<or> w * w \<noteq> x then (if (w - 1) mod 2 = 0 then w + 2 else w + 1) else w);
               width_dist = width - 1
           in if width_dist = 0 then Inl ZeroDivisionError
           else let ring = real_of_int width_dist / 2;
                    volume = width ^ 2;
                    side = real_of_int (volume - x) / real_of_int width_dist;
                    coords = (if side \<le> 1 then [volume - x, 0]
                              else if side \<le> 2 then [width_dist, volume - x - width_dist]
                              else if side \<le> 3 then [volume - x - width_dist * 2, width_dist]
                              else [0, width_dist - (volume - width_dist * 3 - x)])
                in Inr (manhattan_distance (map real_of_int coords) [ring, ring]))"

section \<open>Part 2: the spiral generator and \<open>spiralizer\<close>\<close>

text \<open>The generator \<open>generate_coordinates\<close> as a resumable state: \<open>Gen_at ring
  phase c\<close> is suspended at a \<open>yield\<close> inside the \<open>phase\<close>-th inner \<open>while\<close>
  loop; \<open>gen_resume\<close> runs the loop tests on to the next \<open>yield\<close>. The code
  yields one list object and mutates it; here each coordinate is a value.\<close>

partial_function (option) gen_resume :: "int \<Rightarrow> nat \<Rightarrow> int \<times> int \<Rightarrow> (int \<times> nat \<times> (int \<times> int)) option" where
  "gen_resume ring phase c =
     (let (x, y) = c in
      if phase = 0 then (if x < ring then Some (ring, 0, (x + 1, y)) else gen_resume ring 1 c)
      else if phase = 1 then (if y < ring then Some (ring, 1, (x, y + 1)) else gen_resume ring 2 c)
      else if phase = 2 then (if x > - ring then Some (ring, 2, (x - 1, y)) else gen_resume ring 3 c)
      else (if y > - ring then Some (ring, 3, (x, y - 1)) else gen_resume (ring + 1) 0 c))"

datatype gen = Gen_start | Gen_at int nat "int \<times> int"

definition gen_next :: "gen \<Rightarrow> (gen \<times> (int \<times> int)) option" where
  "gen_next g = (case g of Gen_start \<Rightarrow> Some (Gen_at 1 0 (0, 0), (0, 0))
     | Gen_at ring phase c \<Rightarrow>
         (case gen_resume ring phase c of None \<Rightarrow> None | Some (r', p', c') \<Rightarrow> Some (Gen_at r' p' c', c')))"

fun py_str_int :: "int \<Rightarrow> string" where
  "py_str_int i = (if i < 0 then CHR ''-'' # dec_digits (nat (- i)) else dec_digits (nat i))"

definition coord_string :: "int \<times> int \<Rightarrow> string" where
  "coord_string c = py_str_int (fst c) @ '','' @ py_str_int (snd c)"

record spiralizer =
  coords :: "(string, int) pydict"
  coordinate_generator :: gen

definition spiral_tests :: "(int \<times> int) list" where
  "spiral_tests = List.product [-1, 0, 1] [-1, 0, 1]"

definition spiralizer_init :: spiralizer where
  "spiralizer_init = \<lparr>coords = [], coordinate_generator = Gen_start\<rparr>"

definition update_coords :: "spiralizer \<Rightarrow> int \<times> int \<Rightarrow> int \<Rightarrow> spiralizer" where
  "update_coords s c v = s\<lparr>coords := d_set (coords s) (coord_string c) v\<rparr>"

definition get_coord_value :: "spiralizer \<Rightarrow> int \<times> int \<Rightarrow> int" where
  "get_coord_value s c = d_get (coords s) (coord_string c) 0"

definition get_local_value :: "spiralizer \<Rightarrow> int \<times> int \<Rightarrow> int" where
  "get_local_value s c = sum_list (map (\<lambda>(dx, dy). get_coord_value s (fst c + dx, snd c + dy)) spiral_tests)"

text \<open>One \<open>next\<close> of \<open>generate_coordinate_values\<close>: the first yields the start
  with \<open>init_value\<close>, every later one the sum around the new coordinate.\<close>

definition spiral_next :: "bool \<Rightarrow> spiralizer \<Rightarrow> (spiralizer \<times> (int \<times> int) \<times> int) option" where
  "spiral_next first s =
     (case gen_next (coordinate_generator s) of None \<Rightarrow> None | Some (g, c) \<Rightarrow>
      let s1 = s\<lparr>coordinate_generator := g\<rparr>; v = (if first then 1 else get_local_value s1 c)
      in Some (update_coords s1 c v, c, v))"

partial_function (option) fb_loop :: "int \<Rightarrow> spiralizer \<Rightarrow> (int \<times> int) \<times> int \<Rightarrow> ((int \<times> int) \<times> int) option" where
  "fb_loop x s val =
     (if snd val < x then
        (case spiral_next False s of None \<Rightarrow> None | Some (s', c, v) \<Rightarrow> fb_loop x s' (c, v))
      else Some val)"

declare gen_resume.simps [code] fb_loop.simps [code]

definition find_bigger :: "int \<Rightarrow> ((int \<times> int) \<times> int) option" where
  "find_bigger x = (case spiral_next True spiralizer_init of None \<Rightarrow> None | Some (s, c, v) \<Rightarrow> fb_loop x s (c, v))"

section \<open>Specification\<close>

definition in_ring :: "int \<Rightarrow> int \<times> int \<Rightarrow> bool" where
  "in_ring ring c \<longleftrightarrow> 1 \<le> ring \<and> - ring \<le> fst c \<and> fst c \<le> ring \<and> - ring \<le> snd c \<and> snd c \<le> ring"

definition gen_yield_ok :: "int \<times> int \<Rightarrow> int \<times> nat \<times> (int \<times> int) \<Rightarrow> bool" where
  "gen_yield_ok c res \<longleftrightarrow> (case res of (r, p, c') \<Rightarrow>
     in_ring r c' \<and> p \<le> 3 \<and> \<bar>fst c' - fst c\<bar> + \<bar>snd c' - snd c\<bar> = 1)"

definition gen_ok :: "gen \<Rightarrow> bool" where
  "gen_ok g \<longleftrightarrow> (case g of Gen_start \<Rightarrow> True | Gen_at r p c \<Rightarrow> in_ring r c \<and> p \<le> 3)"

fun gen_coords :: "nat \<Rightarrow> gen \<Rightarrow> (int \<times> int) list" where
  "gen_coords 0 g = []"
| "gen_coords (Suc n) g = (case gen_next g of None \<Rightarrow> [] | Some (g', c) \<Rightarrow> c # gen_coords n g')"

section \<open>Lemmas\<close>

lemma gen_resume_3:
  "in_ring ring c \<Longrightarrow> \<exists>res. gen_resume ring 3 c = Some res \<and> gen_yield_ok c res"
  by (cases c) (subst gen_resume.simps, subst gen_resume.simps, auto simp: in_ring_def gen_yield_ok_def)

lemma gen_resume_2:
  "in_ring ring c \<Longrightarrow> \<exists>res. gen_resume ring 2 c = Some res \<and> gen_yield_ok c res"
  using gen_resume_3[of ring c] by (cases c) (subst gen_resume.simps, auto simp: in_ring_def gen_yield_ok_def)

lemma gen_resume_1:
  "in_ring ring c \<Longrightarrow> \<exists>res. gen_resume ring 1 c = Some res \<and> gen_yield_ok c res"
  using gen_resume_2[of ring c] by (cases c) (subst gen_resume.simps, auto simp: in_ring_def gen_yield_ok_def)

lemma gen_resume_0:
  "in_ring ring c \<Longrightarrow> \<exists>res. gen_resume ring 0 c = Some res \<and> gen_yield_ok c res"
  using gen_resume_1[of ring c] by (cases c) (subst gen_resume.simps, auto simp: in_ring_def gen_yield_ok_def)

lemma gen_resume_yields:
  "in_ring ring c \<Longrightarrow> phase \<le> 3 \<Longrightarrow> \<exists>res. gen_resume ring phase c = Some res \<and> gen_yield_ok c res"
proof -
  assume "in_ring ring c" "phase \<le> 3"
  then consider "phase = 0" | "phase = 1" | "phase = 2" | "phase = 3" by linarith
  then show ?thesis using gen_resume_0 gen_resume_1 gen_resume_2 gen_resume_3 \<open>in_ring ring c\<close> by cases blast+
qed

lemma gen_next_ok:
  "gen_ok g \<Longrightarrow> \<exists>g' c. gen_next g = Some (g', c) \<and> gen_ok g' \<and>
     (case g of Gen_start \<Rightarrow> c = (0, 0) | Gen_at r p c0 \<Rightarrow> \<bar>fst c - fst c0\<bar> + \<bar>snd c - snd c0\<bar> = 1)"
proof (cases g)
  case Gen_start
  then show ?thesis by (simp add: gen_next_def gen_ok_def in_ring_def)
next
  case (Gen_at r p c0)
  assume "gen_ok g"
  then have "in_ring r c0" "p \<le> 3" using Gen_at by (simp_all add: gen_ok_def)
  from gen_resume_yields[OF this] obtain r' p' c' where
    "gen_resume r p c0 = Some (r', p', c')" "gen_yield_ok c0 (r', p', c')" by auto
  then show ?thesis using Gen_at by (simp add: gen_next_def gen_ok_def gen_yield_ok_def)
qed

lemma gen_coords_length: "gen_ok g \<Longrightarrow> length (gen_coords n g) = n"
proof (induction n arbitrary: g)
  case (Suc n)
  then obtain g' c where "gen_next g = Some (g', c)" "gen_ok g'" using gen_next_ok by blast
  then show ?case using Suc.IH by simp
qed simp

end
