(* ===== verification/Tubes.thy ===== *)
theory Tubes
  imports Prelude
begin

text \<open>
  Day 19, "A Series of Tubes" (\<open>src/code/day19/day19.py\<close>): the map from the
  file's lines, \<open>traverse_direction\<close>, \<open>get_char\<close> and \<open>traverse_matrix\<close>, whose
  \<open>while True\<close> loop is a \<open>partial_function (option)\<close>: a map whose path
  closes on itself walks forever, so no termination holds in general. The lemmas
  show the loop never raises on a loaded map, keeps a unit direction, and
  collects only capital letters.
\<close>

section \<open>The map and the walk\<close>

text \<open>\<open>char.strip()\<close> of one character: the empty string for whitespace.\<close>

definition strip_char :: "char \<Rightarrow> string" where
  "strip_char c = (if is_py_space c then [] else [c])"

text \<open>\<open>load_path_matrix\<close> from the file's lines on: every cell a string, rows
  padded with \<open>''\<close> to the longest, the entrance at the \<open>|\<close> of the first row.\<close>

definition load_path_matrix :: "string list \<Rightarrow> (string list list \<times> int \<times> int) py" where
  "load_path_matrix lines =
     (let output = map (\<lambda>line. map strip_char (py_rstrip line)) lines in
      case py_max (map (\<lambda>x. int (length x)) output) of Inl e \<Rightarrow> Inl e | Inr max_length \<Rightarrow>
      let padded = map (\<lambda>line. line @ replicate (nat (max_length - int (length line))) []) output in
      case py_index padded 0 of Inl e \<Rightarrow> Inl e | Inr row0 \<Rightarrow>
      case list_index row0 ''|'' 0 of Inl e \<Rightarrow> Inl e | Inr j \<Rightarrow> Inr (padded, 0, j))"

definition traverse_direction :: "int list \<Rightarrow> int list \<Rightarrow> int list py" where
  "traverse_direction location direction =
     py_map (\<lambda>i. case py_index location i of Inl e \<Rightarrow> Inl e | Inr a \<Rightarrow>
                  case py_index direction i of Inl e \<Rightarrow> Inl e | Inr b \<Rightarrow> Inr (a + b))
       (map int [0..<length location])"

text \<open>\<open>'oob'\<close> off the grid; the tests come before any indexing, so no negative
  index is read.\<close>

definition get_char :: "string list list \<Rightarrow> int list \<Rightarrow> string py" where
  "get_char path_matrix location =
     (case py_index path_matrix 0 of Inl e \<Rightarrow> Inl e | Inr row0 \<Rightarrow>
      let lx = int (length row0); ly = int (length path_matrix) in
      case py_index location 0 of Inl e \<Rightarrow> Inl e | Inr l0 \<Rightarrow>
      case py_index location 1 of Inl e \<Rightarrow> Inl e | Inr l1 \<Rightarrow>
      if l0 < 0 \<or> l0 \<ge> ly \<or> l1 < 0 \<or> l1 \<ge> lx then Inr ''oob''
      else case py_index path_matrix l0 of Inl e \<Rightarrow> Inl e | Inr row \<Rightarrow> py_index row l1)"

definition landmark_names :: "string list" where
  "landmark_names = map (\<lambda>c. [c]) ''ABCDEFGHIJKLMNOPQRSTUVWXYZ''"

text \<open>The locals of \<open>traverse_matrix\<close>'s loop. The \<open>debug\<close> and \<open>count\<close>
  locals set on \<open>U\<close> are never read and are left out.\<close>

record tstate =
  current_location :: "int list"
  prev_direction :: "int list"
  prev_direction_char :: string
  landmarks :: "string list"
  step_count :: int

text \<open>At a \<open>+\<close>: the characters in the two test directions, then the new
  direction: the first whose character is the new \<open>prev_direction_char\<close>, else
  the last showing a letter, else the old one.\<close>

fun test_loop :: "string list list \<Rightarrow> int list \<Rightarrow> int list list \<Rightarrow> string list py" where
  "test_loop pm loc [] = Inr []"
| "test_loop pm loc (d # ds) = (case traverse_direction loc d of Inl e \<Rightarrow> Inl e | Inr test_location \<Rightarrow>
     case get_char pm test_location of Inl e \<Rightarrow> Inl e | Inr tc \<Rightarrow>
     case test_loop pm loc ds of Inl e \<Rightarrow> Inl e | Inr tcs \<Rightarrow> Inr (tc # tcs))"

fun last_landmark :: "int list list \<Rightarrow> string list \<Rightarrow> int list \<Rightarrow> int list" where
  "last_landmark (d # ds) (c # cs) cur = last_landmark ds cs (if c \<in> set landmark_names then d else cur)"
| "last_landmark _ _ cur = cur"

definition turn :: "string list list \<Rightarrow> tstate \<Rightarrow> tstate py" where
  "turn pm s =
     (let (pdc, test_directions) = (if prev_direction_char s = ''|'' then (''-'', [[0, 1], [0, -1]])
                                     else (''|'', [[1, 0], [-1, 0]])) in
      case test_loop pm (current_location s) test_directions of Inl e \<Rightarrow> Inl e | Inr test_chars \<Rightarrow>
      let pd = (if pdc \<in> set test_chars then
                  (case list_index test_chars pdc 0 of Inr i \<Rightarrow> test_directions ! nat i | Inl _ \<Rightarrow> prev_direction s)
                else last_landmark test_directions test_chars (prev_direction s))
      in Inr (s\<lparr>prev_direction_char := pdc, prev_direction := pd\<rparr>))"

text \<open>One pass of the \<open>while True\<close> body: \<open>Inl\<close> is the \<open>break\<close>.\<close>

definition trav_body :: "string list list \<Rightarrow> tstate \<Rightarrow> (tstate + tstate) py" where
  "trav_body pm s =
     (case traverse_direction (current_location s) (prev_direction s) of Inl e \<Rightarrow> Inl e | Inr loc \<Rightarrow>
      let s1 = s\<lparr>current_location := loc\<rparr> in
      case get_char pm loc of Inl e \<Rightarrow> Inl e | Inr c \<Rightarrow>
      if c = ''oob'' \<or> c = [] then Inr (Inl s1)
      else if c \<in> set landmark_names then Inr (Inr (s1\<lparr>landmarks := landmarks s1 @ [c], step_count := step_count s1 + 1\<rparr>))
      else if c = ''+'' then (case turn pm s1 of Inl e \<Rightarrow> Inl e | Inr s2 \<Rightarrow> Inr (Inr (s2\<lparr>step_count := step_count s2 + 1\<rparr>)))
      else Inr (Inr (s1\<lparr>step_count := step_count s1 + 1\<rparr>)))"

partial_function (option) trav_loop :: "string list list \<Rightarrow> tstate \<Rightarrow> tstate py option" where
  "trav_loop pm s = (case trav_body pm s of Inl e \<Rightarrow> Some (Inl e) | Inr (Inl s') \<Rightarrow> Some (Inr s')
     | Inr (Inr s') \<Rightarrow> trav_loop pm s')"

declare trav_loop.simps [code]

definition traverse_matrix :: "string list list \<Rightarrow> int \<times> int \<Rightarrow> (string \<times> int) py option" where
  "traverse_matrix path_matrix entrance =
     (case trav_loop path_matrix \<lparr>current_location = [fst entrance, snd entrance], prev_direction = [1, 0],
          prev_direction_char = ''|'', landmarks = [], step_count = 1\<rparr> of
        None \<Rightarrow> None | Some (Inl e) \<Rightarrow> Some (Inl e)
      | Some (Inr s) \<Rightarrow> Some (Inr (concat (landmarks s), step_count s)))"

section \<open>Specification\<close>

definition unit_dirs :: "int list list" where
  "unit_dirs = [[1, 0], [-1, 0], [0, 1], [0, -1]]"

definition matrix_ok :: "string list list \<Rightarrow> bool" where
  "matrix_ok pm \<longleftrightarrow> pm \<noteq> [] \<and> (\<forall>row \<in> set pm. length row = length (hd pm))"

definition tstate_ok :: "tstate \<Rightarrow> bool" where
  "tstate_ok s \<longleftrightarrow> length (current_location s) = 2 \<and> prev_direction s \<in> set unit_dirs"

definition landmarks_ok :: "tstate \<Rightarrow> bool" where
  "landmarks_ok s \<longleftrightarrow> set (landmarks s) \<subseteq> set landmark_names"

section \<open>Lemmas\<close>

lemma traverse_direction_2:
  "length loc = 2 \<Longrightarrow> length d = 2 \<Longrightarrow> traverse_direction loc d = Inr [loc ! 0 + d ! 0, loc ! 1 + d ! 1]"
  by (simp add: traverse_direction_def numeral_2_eq_2 py_simps)

lemma get_char_ok:
  assumes "matrix_ok pm" "length loc = 2"
  shows "\<exists>c. get_char pm loc = Inr c"
proof -
  obtain l0 l1 where loc: "loc = [l0, l1]" using assms(2) by (auto simp: numeral_2_eq_2 length_Suc_conv)
  obtain r rs where pm: "pm = r # rs" using assms(1) by (cases pm) (auto simp: matrix_ok_def)
  show ?thesis
  proof (cases "l0 < 0 \<or> l0 \<ge> int (length pm) \<or> l1 < 0 \<or> l1 \<ge> int (length r)")
    case True
    then show ?thesis by (simp add: get_char_def loc pm py_simps)
  next
    case False
    then have "nat l0 < length pm" by (simp add: nat_less_iff)
    then have "pm ! nat l0 \<in> set pm" by (rule nth_mem)
    then have "length (pm ! nat l0) = length r" using assms(1) pm by (auto simp: matrix_ok_def)
    then show ?thesis using False by (simp add: get_char_def loc pm py_simps del: nth_Cons_pos)
  qed
qed

lemma test_loop_ok:
  "matrix_ok pm \<Longrightarrow> length loc = 2 \<Longrightarrow> \<forall>d \<in> set ds. length d = 2 \<Longrightarrow>
   \<exists>cs. test_loop pm loc ds = Inr cs \<and> length cs = length ds"
proof (induction ds)
  case (Cons d ds)
  have d2: "length d = 2" using Cons.prems(3) by simp
  have td: "traverse_direction loc d = Inr [loc ! 0 + d ! 0, loc ! 1 + d ! 1]"
    using traverse_direction_2[OF Cons.prems(2) d2] .
  obtain c where c: "get_char pm [loc ! 0 + d ! 0, loc ! 1 + d ! 1] = Inr c"
    using get_char_ok[OF Cons.prems(1), of "[loc ! 0 + d ! 0, loc ! 1 + d ! 1]"] by auto
  obtain cs where cs: "test_loop pm loc ds = Inr cs" "length cs = length ds"
    using Cons.IH Cons.prems by auto
  show ?case using td c cs by simp
qed simp

lemma last_landmark_in: "cur \<in> set unit_dirs \<Longrightarrow> set ds \<subseteq> set unit_dirs \<Longrightarrow> last_landmark ds cs cur \<in> set unit_dirs"
  by (induction ds cs cur rule: last_landmark.induct) auto

lemma turn_ok:
  assumes "matrix_ok pm" "tstate_ok s"
  shows "\<exists>s'. turn pm s = Inr s' \<and> tstate_ok s' \<and> current_location s' = current_location s \<and>
    step_count s' = step_count s \<and> landmarks s' = landmarks s"
proof -
  define tds where "tds = (if prev_direction_char s = ''|'' then [[0, 1], [0, -1]] else [[1, 0], [-1, 0 :: int]])"
  define pdc where "pdc = (if prev_direction_char s = ''|'' then ''-'' else ''|'')"
  have tu: "set tds \<subseteq> set unit_dirs" by (auto simp: tds_def unit_dirs_def)
  have t2: "\<forall>d \<in> set tds. length d = 2" by (simp add: tds_def)
  have l2: "length (current_location s) = 2" using assms(2) by (simp add: tstate_ok_def)
  obtain cs where cs: "test_loop pm (current_location s) tds = Inr cs" "length cs = length tds"
    using test_loop_ok[OF assms(1) l2 t2] by blast
  have "(case list_index cs pdc 0 of Inr i \<Rightarrow> tds ! nat i | Inl _ \<Rightarrow> prev_direction s) \<in> set unit_dirs"
  proof (cases "list_index cs pdc 0")
    case (Inl e)
    then show ?thesis using assms(2) by (simp add: tstate_ok_def)
  next
    case (Inr i)
    obtain j where j: "j < length cs" "i = int (0 + j)" using list_index_nth[OF Inr] by blast
    then have "tds ! nat i \<in> set tds" using cs(2) by simp
    then show ?thesis using Inr tu by auto
  qed
  moreover have "last_landmark tds cs (prev_direction s) \<in> set unit_dirs"
    using last_landmark_in tu assms(2) by (simp add: tstate_ok_def)
  moreover have "turn pm s = Inr (s\<lparr>prev_direction_char := pdc, prev_direction :=
      (if pdc \<in> set cs then (case list_index cs pdc 0 of Inr i \<Rightarrow> tds ! nat i | Inl _ \<Rightarrow> prev_direction s)
       else last_landmark tds cs (prev_direction s))\<rparr>)"
  proof (cases "prev_direction_char s = ''|''")
    case True
    then show ?thesis using cs(1) unfolding turn_def tds_def pdc_def by (simp only: simp_thms if_True Let_def prod.case sum.case)
  next
    case False
    then show ?thesis using cs(1) unfolding turn_def tds_def pdc_def by (simp only: simp_thms if_False Let_def prod.case sum.case)
  qed
  ultimately show ?thesis using l2 by (simp add: tstate_ok_def)
qed

lemma trav_body_ok:
  assumes "matrix_ok pm" "tstate_ok s" "landmarks_ok s"
  shows "\<exists>r. trav_body pm s = Inr r \<and>
    (case r of Inl s' \<Rightarrow> landmarks s' = landmarks s \<and> step_count s' = step_count s
     | Inr s' \<Rightarrow> tstate_ok s' \<and> landmarks_ok s' \<and> step_count s' = step_count s + 1)"
proof -
  have l2: "length (current_location s) = 2" "length (prev_direction s) = 2"
    using assms(2) by (auto simp: tstate_ok_def unit_dirs_def)
  define loc where "loc = [current_location s ! 0 + prev_direction s ! 0, current_location s ! 1 + prev_direction s ! 1]"
  have td: "traverse_direction (current_location s) (prev_direction s) = Inr loc"
    unfolding loc_def by (rule traverse_direction_2[OF l2])
  have "length loc = 2" by (simp add: loc_def)
  then obtain c where c: "get_char pm loc = Inr c" using get_char_ok[OF assms(1)] by blast
  define s1 where "s1 = s\<lparr>current_location := loc\<rparr>"
  have ok1: "tstate_ok s1" "landmarks_ok s1" using assms(2,3) by (simp_all add: s1_def tstate_ok_def loc_def landmarks_ok_def)
  show ?thesis
  proof (cases "c = ''oob'' \<or> c = []")
    case True
    then show ?thesis using td c by (simp add: trav_body_def s1_def)
  next
    case stop: False
    show ?thesis
    proof (cases "c \<in> set landmark_names")
      case True
      then show ?thesis using td c stop ok1 by (simp add: trav_body_def Let_def s1_def tstate_ok_def landmarks_ok_def)
    next
      case nl: False
      show ?thesis
      proof (cases "c = ''+''")
        case True
        obtain s2 where "turn pm s1 = Inr s2" "tstate_ok s2" "landmarks s2 = landmarks s1" "step_count s2 = step_count s1"
          using turn_ok[OF assms(1) ok1(1)] by blast
        then show ?thesis using td c stop nl True ok1(2)
          by (simp add: trav_body_def Let_def s1_def tstate_ok_def landmarks_ok_def)
      next
        case False
        then show ?thesis using td c stop nl ok1 by (simp add: trav_body_def Let_def s1_def tstate_ok_def landmarks_ok_def)
      qed
    qed
  qed
qed

lemma trav_loop_no_error:
  assumes run: "trav_loop pm s = Some r"
  shows "matrix_ok pm \<longrightarrow> tstate_ok s \<longrightarrow> landmarks_ok s \<longrightarrow>
    (\<exists>s'. r = Inr s' \<and> landmarks_ok s' \<and> step_count s \<le> step_count s')"
proof (rule trav_loop.raw_induct[where P = "\<lambda>pm s r. matrix_ok pm \<longrightarrow> tstate_ok s \<longrightarrow> landmarks_ok s \<longrightarrow>
    (\<exists>s'. r = Inr s' \<and> landmarks_ok s' \<and> step_count s \<le> step_count s')", OF _ run])
  fix f pm s r
  assume IH: "\<And>pm s r. f pm s = Some r \<Longrightarrow> matrix_ok pm \<longrightarrow> tstate_ok s \<longrightarrow> landmarks_ok s \<longrightarrow>
      (\<exists>s'. r = Inr s' \<and> landmarks_ok s' \<and> step_count s \<le> step_count s')"
    and eq: "(case trav_body pm s of Inl e \<Rightarrow> Some (Inl e) | Inr (Inl s') \<Rightarrow> Some (Inr s')
      | Inr (Inr s') \<Rightarrow> f pm s') = Some r"
  show "matrix_ok pm \<longrightarrow> tstate_ok s \<longrightarrow> landmarks_ok s \<longrightarrow>
      (\<exists>s'. r = Inr s' \<and> landmarks_ok s' \<and> step_count s \<le> step_count s')"
  proof (intro impI)
    assume ok: "matrix_ok pm" "tstate_ok s" "landmarks_ok s"
    obtain b where b: "trav_body pm s = Inr b" and bc: "case b of Inl s' \<Rightarrow> landmarks s' = landmarks s \<and> step_count s' = step_count s
       | Inr s' \<Rightarrow> tstate_ok s' \<and> landmarks_ok s' \<and> step_count s' = step_count s + 1"
      using trav_body_ok[OF ok] by blast
    show "\<exists>s'. r = Inr s' \<and> landmarks_ok s' \<and> step_count s \<le> step_count s'"
    proof (cases b)
      case (Inl s')
      then have "r = Inr s'" using eq b by simp
      then show ?thesis using bc Inl ok(3) by (simp add: landmarks_ok_def)
    next
      case (Inr s')
      then have "f pm s' = Some r" using eq b by simp
      from IH[OF this] bc Inr ok(1) obtain s'' where "r = Inr s''" "landmarks_ok s''" "step_count s' \<le> step_count s''"
        by auto
      then show ?thesis using bc Inr by auto
    qed
  qed
qed

lemma load_path_matrix_ok:
  assumes "load_path_matrix lines = Inr (pm, e)"
  shows "matrix_ok pm \<and> e = (0, snd e)"
proof -
  let ?out = "map (\<lambda>line. map strip_char (py_rstrip line)) lines"
  have ne: "lines \<noteq> []" using assms by (auto simp: load_path_matrix_def py_max_def)
  let ?m = "Max (set (map (\<lambda>x. int (length x)) ?out))"
  have mx: "py_max (map (\<lambda>x. int (length x)) ?out) = Inr ?m" using ne by (simp add: py_max_Inr)
  have le: "int (length x) \<le> ?m" if "x \<in> set ?out" for x using that by (intro Max_ge) auto
  have pm: "pm = map (\<lambda>line. line @ replicate (nat (?m - int (length line))) []) ?out"
    and e: "e = (0, snd e)"
    using assms mx by (auto simp: load_path_matrix_def Let_def split: sum.splits)
  have rl: "length row = nat ?m" if "row \<in> set pm" for row
  proof -
    have "row \<in> (\<lambda>line. line @ replicate (nat (?m - int (length line))) []) ` set ?out"
      using that unfolding pm by (simp only: set_map)
    then obtain x where x: "x \<in> set ?out" "row = x @ replicate (nat (?m - int (length x))) []"
      by (rule imageE) simp
    have "int (length x) \<le> ?m" by (rule le[OF x(1)])
    then show ?thesis using x(2) by simp
  qed
  have pne: "pm \<noteq> []" using ne by (simp add: pm)
  then have "length (hd pm) = nat ?m" using rl by simp
  then show ?thesis using pne rl e by (simp add: matrix_ok_def)
qed

text \<open>C14 (safety of the walk): on any map \<open>load_path_matrix\<close> returns, a run of
  \<open>traverse_matrix\<close> that ends never raises (no \<open>IndexError\<close>, \<open>ValueError\<close>);
  it returns the capital letters met and a step count of at least 1.\<close>

theorem traverse_matrix_no_error:
  assumes "load_path_matrix lines = Inr (pm, e)" "traverse_matrix pm e = Some r"
  shows "\<exists>ls n. r = Inr (ls, n) \<and> set ls \<subseteq> set ''ABCDEFGHIJKLMNOPQRSTUVWXYZ'' \<and> 1 \<le> n"
proof -
  let ?s0 = "\<lparr>current_location = [fst e, snd e], prev_direction = [1, 0],
          prev_direction_char = ''|'', landmarks = [], step_count = 1\<rparr>"
  have ok: "matrix_ok pm" using load_path_matrix_ok[OF assms(1)] by simp
  have s0: "tstate_ok ?s0" "landmarks_ok ?s0" by (simp_all add: tstate_ok_def unit_dirs_def landmarks_ok_def)
  obtain r' where r': "trav_loop pm ?s0 = Some r'" using assms(2) by (cases "trav_loop pm ?s0") (auto simp: traverse_matrix_def)
  from trav_loop_no_error[OF r'] ok s0 obtain s' where "r' = Inr s'" "landmarks_ok s'" "1 \<le> step_count s'" by auto
  moreover have "set (concat (landmarks s')) \<subseteq> set ''ABCDEFGHIJKLMNOPQRSTUVWXYZ''"
    using \<open>landmarks_ok s'\<close> by (auto simp: landmarks_ok_def landmark_names_def)
  ultimately show ?thesis using r' assms(2) by (auto simp: traverse_matrix_def)
qed

end
