(* ===== verification/Tower.thy ===== *)
theory Tower
  imports Prelude
begin

text \<open>Day 7, Recursive Circus (\<open>src/code/day7/day7-p1.py\<close>). A program is the record
  \<open>prog\<close> (class \<open>program\<close>), the tower's \<open>structure\<close> dictionary is an association
  list in insertion order, and the methods of class \<open>tower\<close> are \<open>build_tower\<close>
  (with its inner loop \<open>add_connections\<close>), \<open>find_root\<close> (\<open>_find_root\<close>, its
  \<open>while\<close> loop \<open>fr_loop\<close>), \<open>check_total_weight\<close> (the recursion \<open>ctw\<close> over the
  list comprehension), \<open>find_imbalances\<close> and \<open>weight_corrections\<close>. The
  recursions that may not end on a cyclic structure are \<open>partial_function
  (option)\<close>; \<open>None\<close> is non-termination (Python's RecursionError or a hang).
  The specification is the total weight of a subtower (\<open>tw_rel\<close> on the
  structure, \<open>tower_weight\<close> on the input lines, the puzzle's definition), and the
  invariants \<open>mem_ok\<close> (what \<open>check_total_weight\<close> has annotated is right) and
  \<open>build_inv\<close> (what \<open>build_tower\<close> has built from the lines read so far).\<close>

section \<open>The program\<close>

record prog =
  pname :: string
  weight :: "int option"
  weight_above :: "int option"
  total_weight :: "int option"
  proot :: "string option"
  connections :: "string list"
  is_balanced :: "bool option"

type_synonym tstruct = "(string, prog) pydict"

definition program :: "string \<Rightarrow> int option \<Rightarrow> string option \<Rightarrow> string list \<Rightarrow> prog" where
  "program name w root conns = \<lparr>pname = name, weight = w, weight_above = None, total_weight = None,
     proot = root, connections = conns, is_balanced = None\<rparr>"

definition update_attributes :: "prog \<Rightarrow> prog \<Rightarrow> prog" where
  "update_attributes target src =
     target\<lparr>pname := (if pname src \<noteq> [] then pname src else pname target),
            weight := (if weight src \<noteq> None \<and> weight src \<noteq> Some 0 then weight src else weight target),
            proot := (if proot src \<noteq> None \<and> proot src \<noteq> Some [] then proot src else proot target),
            connections := (if connections src \<noteq> [] then connections src else connections target)\<rparr>"

fun add_connections :: "tstruct \<Rightarrow> string \<Rightarrow> string list \<Rightarrow> tstruct py" where
  "add_connections s name [] = Inr s"
| "add_connections s name (c # cs) =
     (let s1 = d_setdefault s c (program c None None []) in
      case d_lookup s1 c of Inl e \<Rightarrow> Inl e | Inr p \<Rightarrow> add_connections (d_set s1 c (p\<lparr>proot := Some name\<rparr>)) name cs)"

fun build_tower :: "tstruct \<Rightarrow> prog list \<Rightarrow> tstruct py" where
  "build_tower s [] = Inr s"
| "build_tower s (p # ps) =
     (let s1 = d_setdefault s (pname p) p in
      case d_lookup s1 (pname p) of Inl e \<Rightarrow> Inl e | Inr q \<Rightarrow>
      case add_connections (d_set s1 (pname p) (update_attributes q p)) (pname p) (connections p) of
        Inl e \<Rightarrow> Inl e | Inr s2 \<Rightarrow> build_tower s2 ps)"

partial_function (option) fr_loop :: "tstruct \<Rightarrow> string option \<Rightarrow> string option \<Rightarrow> string py option" where
  "fr_loop s root prev_root =
     (case root of None \<Rightarrow> Some (case prev_root of None \<Rightarrow> Inl UnboundLocalError | Some r \<Rightarrow> Inr r)
      | Some r \<Rightarrow> (case d_lookup s r of Inl e \<Rightarrow> Some (Inl e) | Inr p \<Rightarrow> fr_loop s (proot p) (Some (pname p))))"

definition find_root :: "tstruct \<Rightarrow> string py option" where
  "find_root s = (case s of [] \<Rightarrow> Some (Inl StopIteration) | (k, p) # _ \<Rightarrow> fr_loop s (proot p) None)"

fun py_sum_opt :: "int option list \<Rightarrow> int py" where
  "py_sum_opt [] = Inr 0"
| "py_sum_opt (None # ws) = Inl TypeError"
| "py_sum_opt (Some w # ws) = (case py_sum_opt ws of Inl e \<Rightarrow> Inl e | Inr t \<Rightarrow> Inr (w + t))"

text \<open>\<open>check_total_weight\<close>: a leaf is first given its weights; then, unless the
  node is done (\<open>weight_above\<close> set), the children are computed and the sums
  stored.\<close>

definition leaf_update :: "tstruct \<Rightarrow> string \<Rightarrow> prog \<Rightarrow> tstruct" where
  "leaf_update s n p =
     (if connections p = [] then d_set s n (p\<lparr>weight_above := Some 0, total_weight := weight p, is_balanced := Some True\<rparr>)
      else s)"

definition set_totals :: "tstruct \<Rightarrow> string \<Rightarrow> int option list \<Rightarrow> tstruct py" where
  "set_totals s n ws =
     (case d_lookup s n of Inl e \<Rightarrow> Inl e | Inr p \<Rightarrow>
      case py_sum_opt ws of Inl e \<Rightarrow> Inl e | Inr wa \<Rightarrow>
      case weight p of None \<Rightarrow> Inl TypeError | Some w \<Rightarrow>
        Inr (d_set s n (p\<lparr>is_balanced := Some (card (set ws) = 1), weight_above := Some wa, total_weight := Some (w + wa)\<rparr>)))"

partial_function (option) ctw :: "tstruct \<Rightarrow> string list \<Rightarrow> (tstruct \<times> int option list) py option" where
  "ctw s ns =
     (case ns of [] \<Rightarrow> Some (Inr (s, []))
      | n # rest \<Rightarrow>
        (case d_lookup s n of Inl e \<Rightarrow> Some (Inl e) | Inr p \<Rightarrow>
         let s1 = leaf_update s n p in
         case d_lookup s1 n of Inl e \<Rightarrow> Some (Inl e) | Inr p1 \<Rightarrow>
         Option.bind
           (if weight_above p1 = None then
              Option.bind (ctw s1 (connections p1)) (\<lambda>r. case r of Inl e \<Rightarrow> Some (Inl e)
                | Inr (s2, ws) \<Rightarrow> Some (set_totals s2 n ws))
            else Some (Inr s1))
           (\<lambda>r. case r of Inl e \<Rightarrow> Some (Inl e) | Inr s3 \<Rightarrow>
              (case d_lookup s3 n of Inl e \<Rightarrow> Some (Inl e) | Inr p3 \<Rightarrow>
               Option.bind (ctw s3 rest) (\<lambda>r. case r of Inl e \<Rightarrow> Some (Inl e)
                 | Inr (s4, ws) \<Rightarrow> Some (Inr (s4, total_weight p3 # ws)))))))"

declare fr_loop.simps [code] ctw.simps [code]

definition check_total_weight :: "tstruct \<Rightarrow> string \<Rightarrow> (tstruct \<times> int option) py option" where
  "check_total_weight s node = Option.bind (ctw s [node]) (\<lambda>r. case r of Inl e \<Rightarrow> Some (Inl e)
     | Inr (s', ws) \<Rightarrow> Some (Inr (s', hd ws)))"

record tower =
  tstructure :: tstruct
  troot :: string

definition tower_init :: "prog list \<Rightarrow> tower py option" where
  "tower_init org_list =
     (case build_tower [] org_list of Inl e \<Rightarrow> Some (Inl e) | Inr s \<Rightarrow>
      Option.bind (find_root s) (\<lambda>r. case r of Inl e \<Rightarrow> Some (Inl e) | Inr root \<Rightarrow>
      Option.bind (check_total_weight s root) (\<lambda>r. case r of Inl e \<Rightarrow> Some (Inl e)
        | Inr (s', _) \<Rightarrow> Some (Inr \<lparr>tstructure = s', troot = root\<rparr>))))"

datatype imb = INone | IName string | IList "imb list"

fun imb_truthy :: "imb \<Rightarrow> bool" where
  "imb_truthy INone = False"
| "imb_truthy (IName n) = (n \<noteq> [])"
| "imb_truthy (IList l) = (l \<noteq> [])"

text \<open>\<open>find_imbalances(node)\<close> over a list of nodes (the comprehension); a falsy
  node (\<open>None\<close> or the empty name) restarts at the root and wraps a bare root name
  in a list.\<close>

partial_function (option) find_imbs :: "tstruct \<Rightarrow> string \<Rightarrow> string list \<Rightarrow> imb list py option" where
  "find_imbs s root ns =
     (case ns of [] \<Rightarrow> Some (Inr [])
      | node # rest \<Rightarrow>
        Option.bind
          (if node = [] then
             Option.bind (find_imbs s root [root]) (\<lambda>r. case r of Inl e \<Rightarrow> Some (Inl e) | Inr is \<Rightarrow>
               let ret = hd is in Some (Inr (if ret = IName root then IList [ret] else ret)))
           else
             (case d_lookup s node of Inl e \<Rightarrow> Some (Inl e) | Inr p \<Rightarrow>
              if is_balanced p \<noteq> Some True then
                Option.bind (find_imbs s root (connections p)) (\<lambda>r. case r of Inl e \<Rightarrow> Some (Inl e) | Inr imbs \<Rightarrow>
                  let imbalances = filter imb_truthy imbs in
                  Some (Inr (if imbalances = [] then IName node else IList imbalances)))
              else Some (Inr INone)))
          (\<lambda>r. case r of Inl e \<Rightarrow> Some (Inl e) | Inr i \<Rightarrow>
             Option.bind (find_imbs s root rest) (\<lambda>r. case r of Inl e \<Rightarrow> Some (Inl e) | Inr is \<Rightarrow> Some (Inr (i # is)))))"

declare find_imbs.simps [code]

definition find_imbalances :: "tower \<Rightarrow> imb py option" where
  "find_imbalances t =
     Option.bind (find_imbs (tstructure t) (troot t) [[]]) (\<lambda>r. case r of Inl e \<Rightarrow> Some (Inl e)
       | Inr is \<Rightarrow> Some (Inr (hd is)))"

text \<open>\<open>for node in imbalanced_nodes\<close>: a list yields its items, a string its
  characters, \<open>None\<close> raises; an item that is a list is no dictionary key.\<close>

fun imb_keys :: "imb \<Rightarrow> string list py" where
  "imb_keys INone = Inl TypeError"
| "imb_keys (IName n) = Inr (map (\<lambda>c. [c]) n)"
| "imb_keys (IList l) = py_map (\<lambda>i. case i of IName n \<Rightarrow> Inr n | _ \<Rightarrow> Inl TypeError) l"

definition counter_max :: "'a list \<Rightarrow> 'a py" where
  "counter_max ws =
     (let ks = remdups ws in
      case ks of [] \<Rightarrow> Inl ValueError
      | _ \<Rightarrow> let m = Max (set (map (\<lambda>k. count_list ws k) ks)) in Inr (hd (filter (\<lambda>k. count_list ws k = m) ks)))"

fun opt_sub :: "int option \<Rightarrow> int option \<Rightarrow> int py" where
  "opt_sub (Some a) (Some b) = Inr (a - b)"
| "opt_sub _ _ = Inl TypeError"

definition correction :: "tstruct \<Rightarrow> string \<Rightarrow> (string \<times> int) py" where
  "correction s node =
     (case d_lookup s node of Inl e \<Rightarrow> Inl e | Inr p \<Rightarrow>
      case py_map (\<lambda>n. case d_lookup s n of Inl e \<Rightarrow> Inl e | Inr q \<Rightarrow> Inr (total_weight q)) (connections p) of
        Inl e \<Rightarrow> Inl e | Inr weights \<Rightarrow>
      case counter_max weights of Inl e \<Rightarrow> Inl e | Inr desired_weight \<Rightarrow>
      case py_index (filter (\<lambda>w. w \<noteq> desired_weight) (remdups weights)) 0 of Inl e \<Rightarrow> Inl e | Inr incorrect_weight \<Rightarrow>
      case list_index weights incorrect_weight 0 of Inl e \<Rightarrow> Inl e | Inr i \<Rightarrow>
      case py_index (connections p) i of Inl e \<Rightarrow> Inl e | Inr incorrect_node \<Rightarrow>
      case d_lookup s incorrect_node of Inl e \<Rightarrow> Inl e | Inr q \<Rightarrow>
      case opt_sub desired_weight (weight_above q) of Inl e \<Rightarrow> Inl e | Inr c \<Rightarrow> Inr (incorrect_node, c))"

fun corrections_loop :: "tstruct \<Rightarrow> (string, int) pydict \<Rightarrow> string list \<Rightarrow> (string, int) pydict py" where
  "corrections_loop s acc [] = Inr acc"
| "corrections_loop s acc (n # ns) = (case correction s n of Inl e \<Rightarrow> Inl e
     | Inr (k, c) \<Rightarrow> corrections_loop s (d_set acc k c) ns)"

definition weight_corrections :: "tower \<Rightarrow> (string, int) pydict py option" where
  "weight_corrections t =
     Option.bind (find_imbalances t) (\<lambda>r. case r of Inl e \<Rightarrow> Some (Inl e) | Inr imbalanced_nodes \<Rightarrow>
       Some (case imb_keys imbalanced_nodes of Inl e \<Rightarrow> Inl e | Inr ks \<Rightarrow> corrections_loop (tstructure t) [] ks))"

text \<open>\<open>program(name, weight=weight, connections=connections)\<close> for a parsed line.\<close>

definition line_prog :: "string \<times> int \<times> string list \<Rightarrow> prog" where
  "line_prog l = (case l of (n, w, cs) \<Rightarrow> program n (Some w) None cs)"

definition line_reader7 :: "string list \<Rightarrow> prog py list" where
  "line_reader7 lines = map (\<lambda>line.
     let vals = map (py_strip_chars ''(), '') (split_ws (py_strip line)) in
     case py_index vals 0 of Inl e \<Rightarrow> Inl e | Inr name \<Rightarrow>
     case py_index vals 1 of Inl e \<Rightarrow> Inl e | Inr wv \<Rightarrow>
     case py_int wv of Inl e \<Rightarrow> Inl e | Inr w \<Rightarrow>
     Inr (line_prog (name, w, if length vals \<le> 2 then [] else drop 3 vals))) lines"

text \<open>\<open>tower(line_reader(file))\<close>: the generator is consumed by \<open>build_tower\<close>, so a
  line that does not parse raises before the rest is read.\<close>

fun tower_of_lines :: "prog list \<Rightarrow> prog py list \<Rightarrow> tower py option" where
  "tower_of_lines acc [] = tower_init acc"
| "tower_of_lines acc (Inl e # _) = Some (Inl e)"
| "tower_of_lines acc (Inr p # ps) = tower_of_lines (acc @ [p]) ps"

section \<open>Specification\<close>

text \<open>The puzzle's total weight of the subtower on \<open>n\<close>, over the structure.\<close>

inductive tw_rel :: "tstruct \<Rightarrow> string \<Rightarrow> int \<Rightarrow> bool" for s where
  tw_intro: "map_of s n = Some p \<Longrightarrow> weight p = Some w \<Longrightarrow> list_all2 (tw_rel s) (connections p) ts \<Longrightarrow>
     tw_rel s n (w + sum_list ts)"

text \<open>Well-formed structure: every program has a weight and stands on programs of
  the structure; \<open>ranked\<close> orders the programs so that those above a disc rank
  lower (the structure is acyclic); \<open>fresh\<close>: nothing is annotated yet.\<close>

definition tower_ok :: "tstruct \<Rightarrow> bool" where
  "tower_ok s \<longleftrightarrow> (\<forall>(n, p) \<in> set s. weight p \<noteq> None \<and> set (connections p) \<subseteq> fst ` set s)"

definition ranked :: "(string \<Rightarrow> nat) \<Rightarrow> tstruct \<Rightarrow> bool" where
  "ranked rk s \<longleftrightarrow> (\<forall>(n, p) \<in> set s. \<forall>c \<in> set (connections p). rk c < rk n)"

definition fresh :: "tstruct \<Rightarrow> bool" where
  "fresh s \<longleftrightarrow> (\<forall>(n, p) \<in> set s. weight_above p = None)"

text \<open>What \<open>check_total_weight\<close> stores for a node, and the invariant that every
  annotated node of a state is right (\<open>mem_ok\<close>).\<close>

definition node_ok :: "tstruct \<Rightarrow> string \<Rightarrow> prog \<Rightarrow> bool" where
  "node_ok s0 n p \<longleftrightarrow> (\<exists>p0 w ts. map_of s0 n = Some p0 \<and> weight p0 = Some w \<and>
     list_all2 (tw_rel s0) (connections p0) ts \<and> weight_above p = Some (sum_list ts) \<and>
     total_weight p = Some (w + sum_list ts) \<and> is_balanced p = Some (\<forall>a \<in> set ts. \<forall>b \<in> set ts. a = b))"

definition computed :: "tstruct \<Rightarrow> string \<Rightarrow> bool" where
  "computed s n \<longleftrightarrow> (\<exists>p. map_of s n = Some p \<and> weight_above p \<noteq> None)"

definition mem_ok :: "tstruct \<Rightarrow> tstruct \<Rightarrow> bool" where
  "mem_ok s0 s \<longleftrightarrow> fst ` set s = fst ` set s0 \<and>
     (\<forall>n p. map_of s n = Some p \<longrightarrow> (\<exists>p0. map_of s0 n = Some p0 \<and> connections p = connections p0 \<and>
        weight p = weight p0 \<and> (weight_above p \<noteq> None \<longrightarrow> node_ok s0 n p)))"

text \<open>The invariant of \<open>build_tower\<close> after a set \<open>D\<close> of lines (name, weight,
  names above): the keys are the names read and the names on their discs; a name
  read has its line's weight and names, any other none; the parent link \<open>root\<close> is
  set exactly for names on some disc, to a program whose line lists it.\<close>

definition line_conns :: "(string \<times> int \<times> string list) set \<Rightarrow> string set" where
  "line_conns D = \<Union>((\<lambda>(n, w, cs). set cs) ` D)"

definition entry_ok :: "(string \<times> int \<times> string list) set \<Rightarrow> string \<Rightarrow> prog \<Rightarrow> bool" where
  "entry_ok D k p \<longleftrightarrow> pname p = k \<and> weight_above p = None \<and>
     (if k \<in> fst ` D then \<exists>w. (k, w, connections p) \<in> D \<and> weight p = Some w
      else weight p = None \<and> connections p = []) \<and>
     (proot p = None \<longleftrightarrow> k \<notin> line_conns D) \<and>
     (\<forall>r. proot p = Some r \<longrightarrow> (\<exists>w cs. (r, w, cs) \<in> D \<and> k \<in> set cs))"

definition build_inv :: "(string \<times> int \<times> string list) set \<Rightarrow> tstruct \<Rightarrow> bool" where
  "build_inv D s \<longleftrightarrow> distinct (map fst s) \<and> fst ` set s = fst ` D \<union> line_conns D \<and>
     (\<forall>k p. map_of s k = Some p \<longrightarrow> entry_ok D k p)"

text \<open>The puzzle's total weight over the input lines (name, weight, names above).\<close>

inductive tower_weight :: "(string \<times> int \<times> string list) list \<Rightarrow> string \<Rightarrow> int \<Rightarrow> bool" for xs where
  tower_weight_intro: "(n, w, cs) \<in> set xs \<Longrightarrow> list_all2 (tower_weight xs) cs ts \<Longrightarrow> tower_weight xs n (w + sum_list ts)"

section \<open>Lemmas\<close>

subsection \<open>Total weights\<close>

lemma tw_rel_fun: "tw_rel s n t1 \<Longrightarrow> tw_rel s n t2 \<Longrightarrow> t1 = t2"
proof (induction arbitrary: t2 rule: tw_rel.induct)
  case (tw_intro n p w ts)
  from tw_intro.prems obtain p' w' ts' where "map_of s n = Some p'" "weight p' = Some w'"
    "list_all2 (tw_rel s) (connections p') ts'" "t2 = w' + sum_list ts'"
    by (cases rule: tw_rel.cases) auto
  moreover have "ts = ts'" if "list_all2 (tw_rel s) (connections p) ts'"
    using tw_intro.IH that by (induction arbitrary: ts' rule: list_all2_induct) (auto simp: list_all2_Cons1)
  ultimately show ?case using tw_intro.hyps by simp
qed

lemma fresh_mem_ok: "fresh s \<Longrightarrow> mem_ok s s"
  unfolding fresh_def mem_ok_def by (fastforce dest: map_of_SomeD)

lemma mem_ok_set:
  assumes "mem_ok s0 s" "map_of s n = Some p" "connections p' = connections p" "weight p' = weight p"
    "weight_above p' \<noteq> None \<longrightarrow> node_ok s0 n p'"
  shows "mem_ok s0 (d_set s n p')"
proof -
  have n: "n \<in> fst ` set s" using assms(2) by (metis map_of_SomeD fst_conv image_eqI)
  obtain p0 where p0: "map_of s0 n = Some p0" "connections p = connections p0" "weight p = weight p0"
    using assms(1,2) unfolding mem_ok_def by blast
  show ?thesis using assms(1,3,4,5) n p0 unfolding mem_ok_def by (auto simp: py_simps insert_absorb)
qed

lemma computed_set: "computed s m \<Longrightarrow> weight_above p' \<noteq> None \<Longrightarrow> computed (d_set s n p') m"
  by (auto simp: computed_def py_simps)

lemma mem_ok_keys: "mem_ok s0 s \<Longrightarrow> n \<in> fst ` set s0 \<Longrightarrow> \<exists>p. map_of s n = Some p"
  unfolding mem_ok_def by (metis map_of_eq_None_iff not_None_eq)

lemma tower_ok_at:
  assumes "tower_ok s" "map_of s n = Some p"
  shows "\<exists>w. weight p = Some w" "set (connections p) \<subseteq> fst ` set s"
proof -
  have "(n, p) \<in> set s" using assms(2) by (rule map_of_SomeD)
  then have "weight p \<noteq> None \<and> set (connections p) \<subseteq> fst ` set s"
    using assms(1) unfolding tower_ok_def by fastforce
  then show "\<exists>w. weight p = Some w" "set (connections p) \<subseteq> fst ` set s" by auto
qed

lemma leaf_update_ok:
  assumes "tower_ok s0" "mem_ok s0 s" "map_of s n = Some p"
  shows "\<exists>p1. map_of (leaf_update s n p) n = Some p1 \<and> mem_ok s0 (leaf_update s n p) \<and>
    connections p1 = connections p \<and> (weight_above p1 = None \<longrightarrow> connections p \<noteq> [] \<and> p1 = p) \<and>
    (\<forall>m. computed s m \<longrightarrow> computed (leaf_update s n p) m)"
proof (cases "connections p = []")
  case True
  obtain p0 where p0: "map_of s0 n = Some p0" "connections p = connections p0" "weight p = weight p0"
    using assms(2,3) unfolding mem_ok_def by blast
  obtain w where w: "weight p0 = Some w" using tower_ok_at(1)[OF assms(1) p0(1)] by blast
  let ?p' = "p\<lparr>weight_above := Some 0, total_weight := weight p, is_balanced := Some True\<rparr>"
  have "node_ok s0 n ?p'" unfolding node_ok_def using p0 w True by simp
  then have "mem_ok s0 (d_set s n ?p')" using mem_ok_set[OF assms(2,3)] by simp
  then show ?thesis using True by (auto simp: leaf_update_def py_simps intro: computed_set)
qed (use assms in \<open>simp add: leaf_update_def\<close>)

lemma py_sum_opt_Some: "py_sum_opt (map Some ts) = Inr (sum_list ts)"
  by (induction ts) auto

lemma list_all2_Some_ex:
  "list_all2 (\<lambda>m w. \<exists>t. w = Some t \<and> R m t) xs ws \<Longrightarrow> \<exists>ts. ws = map Some ts \<and> list_all2 R xs ts"
proof (induction rule: list_all2_induct)
  case (Cons x xs w ws)
  then obtain t ts where "w = Some t" "R x t" "ws = map Some ts" "list_all2 R xs ts" by blast
  then show ?case by (intro exI[of _ "t # ts"]) simp
qed simp

lemma card_set_Some_eq_1:
  assumes "ts \<noteq> []"
  shows "(card (set (map Some ts)) = 1) = (\<forall>a \<in> set ts. \<forall>b \<in> set ts. a = b)"
proof -
  have "card (set (map Some ts)) = card (set ts)" by (simp add: card_image)
  moreover have "(card (set ts) = 1) = (\<exists>x. set ts = {x})" by (simp add: card_1_singleton_iff)
  moreover have "(\<exists>x. set ts = {x}) = (\<forall>a \<in> set ts. \<forall>b \<in> set ts. a = b)"
    using assms by (cases ts) auto
  ultimately show ?thesis by simp
qed

lemma set_totals_ok:
  assumes "tower_ok s0" "mem_ok s0 s" "map_of s n = Some p" "connections p \<noteq> []"
    "list_all2 (\<lambda>m w. \<exists>t. w = Some t \<and> tw_rel s0 m t) (connections p) ws"
  shows "\<exists>s'. set_totals s n ws = Inr s' \<and> mem_ok s0 s' \<and> computed s' n \<and> (\<forall>m. computed s m \<longrightarrow> computed s' m)"
proof -
  obtain ts where ts: "ws = map Some ts" "list_all2 (tw_rel s0) (connections p) ts"
    using list_all2_Some_ex[OF assms(5)] by blast
  obtain p0 where p0: "map_of s0 n = Some p0" "connections p = connections p0" "weight p = weight p0"
    using assms(2,3) unfolding mem_ok_def by blast
  obtain w where w: "weight p0 = Some w" using tower_ok_at(1)[OF assms(1) p0(1)] by blast
  have "ts \<noteq> []" using ts(2) assms(4) by (cases ts) auto
  then have bal: "(card (set ws) = 1) = (\<forall>a \<in> set ts. \<forall>b \<in> set ts. a = b)"
    using ts(1) card_set_Some_eq_1 by simp
  define p' where "p' = p\<lparr>is_balanced := Some (card (set ws) = 1), weight_above := Some (sum_list ts),
    total_weight := Some (w + sum_list ts)\<rparr>"
  have "node_ok s0 n p'" unfolding node_ok_def p'_def using p0 w ts(2) bal by auto
  then have "mem_ok s0 (d_set s n p')" using mem_ok_set[OF assms(2,3)] by (simp add: p'_def)
  moreover have "set_totals s n ws = Inr (d_set s n p')"
    using assms(3) p0(3) w by (simp add: set_totals_def py_simps ts(1) py_sum_opt_Some p'_def)
  moreover have "computed (d_set s n p') n" by (simp add: computed_def py_simps p'_def)
  ultimately show ?thesis by (auto simp: p'_def intro: computed_set)
qed

lemma ranked_at: "ranked rk s \<Longrightarrow> map_of s n = Some p \<Longrightarrow> c \<in> set (connections p) \<Longrightarrow> rk c < rk n"
  unfolding ranked_def by (fastforce dest: map_of_SomeD)

lemma mem_ok_at:
  assumes "mem_ok s0 s" "map_of s n = Some p"
  shows "\<exists>p0. map_of s0 n = Some p0 \<and> connections p = connections p0 \<and> weight p = weight p0 \<and>
    (weight_above p \<noteq> None \<longrightarrow> node_ok s0 n p)"
  using assms unfolding mem_ok_def by blast

lemma node_ok_tw:
  "node_ok s0 n p \<Longrightarrow> \<exists>t. total_weight p = Some t \<and> tw_rel s0 n t"
  unfolding node_ok_def by (blast intro: tw_intro)

lemma ctw_ok:
  assumes "tower_ok s0" "ranked rk s0"
  shows "\<forall>m \<in> set ns. rk m < k \<Longrightarrow> set ns \<subseteq> fst ` set s0 \<Longrightarrow> mem_ok s0 s \<Longrightarrow>
    \<exists>s' ws. ctw s ns = Some (Inr (s', ws)) \<and> mem_ok s0 s' \<and>
      list_all2 (\<lambda>m w. \<exists>t. w = Some t \<and> tw_rel s0 m t) ns ws \<and>
      (\<forall>m \<in> set ns. computed s' m) \<and> (\<forall>m. computed s m \<longrightarrow> computed s' m)"
proof (induction k arbitrary: s ns)
  case 0
  then have "ns = []" by (cases ns) auto
  then show ?case using 0 by (subst ctw.simps) simp
next
  case (Suc k)
  from Suc.prems show ?case
  proof (induction ns arbitrary: s)
    case Nil
    then show ?case by (subst ctw.simps) simp
  next
    case (Cons n rest s)
    have n: "n \<in> fst ` set s0" "rk n < Suc k" using Cons.prems by auto
    obtain p where p: "map_of s n = Some p" using mem_ok_keys[OF Cons.prems(3) n(1)] by blast
    obtain p0 where p0: "map_of s0 n = Some p0" "connections p = connections p0"
      using mem_ok_at[OF Cons.prems(3) p] by blast
    let ?s1 = "leaf_update s n p"
    obtain p1 where p1: "map_of ?s1 n = Some p1" "mem_ok s0 ?s1" "connections p1 = connections p"
      "weight_above p1 = None \<longrightarrow> connections p \<noteq> [] \<and> p1 = p" "\<forall>m. computed s m \<longrightarrow> computed ?s1 m"
      using leaf_update_ok[OF assms(1) Cons.prems(3) p] by (elim exE conjE) (rule that)
    have "\<exists>s3. (if weight_above p1 = None then
              Option.bind (ctw ?s1 (connections p1)) (\<lambda>r. case r of Inl e \<Rightarrow> Some (Inl e)
                | Inr (s2, ws) \<Rightarrow> Some (set_totals s2 n ws))
            else Some (Inr ?s1)) = Some (Inr s3) \<and> mem_ok s0 s3 \<and> computed s3 n \<and>
            (\<forall>m. computed s m \<longrightarrow> computed s3 m)"
    proof (cases "weight_above p1 = None")
      case True
      have keys: "set (connections p1) \<subseteq> fst ` set s0"
        using tower_ok_at(2)[OF assms(1) p0(1)] p0(2) p1(3) by simp
      have ranks: "\<forall>m \<in> set (connections p1). rk m < k"
        using ranked_at[OF assms(2) p0(1)] p0(2) p1(3) n(2) by fastforce
      obtain s2 ws where s2: "ctw ?s1 (connections p1) = Some (Inr (s2, ws))" "mem_ok s0 s2"
        "list_all2 (\<lambda>m w. \<exists>t. w = Some t \<and> tw_rel s0 m t) (connections p1) ws"
        "\<forall>m. computed ?s1 m \<longrightarrow> computed s2 m"
        using Suc.IH[OF ranks keys p1(2)] by blast
      obtain p2 where p2: "map_of s2 n = Some p2" using mem_ok_keys[OF s2(2) n(1)] by blast
      have c2: "connections p2 = connections p1"
        using mem_ok_at[OF s2(2) p2] p0 p1(3) by auto
      have ne: "connections p2 \<noteq> []" using c2 p1(3) p1(4) True by metis
      have l2: "list_all2 (\<lambda>m w. \<exists>t. w = Some t \<and> tw_rel s0 m t) (connections p2) ws" using s2(3) c2 by simp
      obtain s3 where s3: "set_totals s2 n ws = Inr s3" "mem_ok s0 s3" "computed s3 n"
        "\<forall>m. computed s2 m \<longrightarrow> computed s3 m"
        using set_totals_ok[OF assms(1) s2(2) p2 ne l2] by (elim exE conjE) (rule that)
      show ?thesis using True s2(1) s3 s2(4) p1(5) by auto
    next
      case False
      then have "computed ?s1 n" using p1(1) unfolding computed_def by blast
      then show ?thesis using p1(2,5) by (intro exI[of _ "?s1"]) (simp add: if_not_P[OF False])
    qed
    then obtain s3 where s3: "(if weight_above p1 = None then
              Option.bind (ctw ?s1 (connections p1)) (\<lambda>r. case r of Inl e \<Rightarrow> Some (Inl e)
                | Inr (s2, ws) \<Rightarrow> Some (set_totals s2 n ws))
            else Some (Inr ?s1)) = Some (Inr s3)" "mem_ok s0 s3" "computed s3 n"
            "\<forall>m. computed s m \<longrightarrow> computed s3 m" by blast
    obtain p3 where p3: "map_of s3 n = Some p3" "weight_above p3 \<noteq> None"
      using s3(3) unfolding computed_def by blast
    obtain t where t: "total_weight p3 = Some t" "tw_rel s0 n t"
      using node_ok_tw mem_ok_at[OF s3(2) p3(1)] p3(2) by blast
    obtain s4 ws where s4: "ctw s3 rest = Some (Inr (s4, ws))" "mem_ok s0 s4"
      "list_all2 (\<lambda>m w. \<exists>t. w = Some t \<and> tw_rel s0 m t) rest ws"
      "\<forall>m \<in> set rest. computed s4 m" "\<forall>m. computed s3 m \<longrightarrow> computed s4 m"
      using Cons.IH[of s3] Cons.prems(1,2) s3(2) by auto
    have dl: "d_lookup s n = Inr p" "d_lookup ?s1 n = Inr p1" "d_lookup s3 n = Inr p3"
      by (simp_all add: d_lookup_def p p1(1) p3(1))
    have "ctw s (n # rest) = Some (Inr (s4, total_weight p3 # ws))"
      by (subst ctw.simps) (simp only: list.case dl sum.case Let_def s3(1) Option.bind.simps s4(1) prod.case)
    then show ?case using s4 t s3(3,4) by auto
  qed
qed

subsection \<open>Building the tower\<close>

lemma add_connections_map:
  assumes "distinct (map fst s)"
  shows "\<exists>s'. add_connections s name cs = Inr s' \<and> distinct (map fst s') \<and>
    fst ` set s' = fst ` set s \<union> set cs \<and>
    (\<forall>k. map_of s' k = (if k \<in> set cs then
        Some ((case map_of s k of None \<Rightarrow> program k None None [] | Some p \<Rightarrow> p)\<lparr>proot := Some name\<rparr>)
      else map_of s k))"
  using assms
proof (induction cs arbitrary: s)
  case Nil
  then show ?case by simp
next
  case (Cons c cs)
  define p where "p = (case map_of s c of None \<Rightarrow> program c None None [] | Some p \<Rightarrow> p)"
  define s2 where "s2 = d_set (d_setdefault s c (program c None None [])) c (p\<lparr>proot := Some name\<rparr>)"
  have lk: "d_lookup (d_setdefault s c (program c None None [])) c = Inr p"
    by (cases "map_of s c") (simp_all add: p_def d_lookup_def map_of_d_setdefault)
  have m2: "map_of s2 = (map_of s)(c \<mapsto> p\<lparr>proot := Some name\<rparr>)"
    by (simp add: s2_def map_of_d_set map_of_d_setdefault split: option.split)
  have d2: "distinct (map fst s2)" using Cons.prems by (simp add: s2_def distinct_d_set distinct_d_setdefault)
  have k2: "fst ` set s2 = insert c (fst ` set s)" by (simp add: s2_def keys_d_set keys_d_setdefault)
  obtain s' where s': "add_connections s2 name cs = Inr s'" "distinct (map fst s')"
    "fst ` set s' = fst ` set s2 \<union> set cs"
    "\<forall>k. map_of s' k = (if k \<in> set cs then
        Some ((case map_of s2 k of None \<Rightarrow> program k None None [] | Some p \<Rightarrow> p)\<lparr>proot := Some name\<rparr>)
      else map_of s2 k)"
    using Cons.IH[OF d2] by (elim exE conjE) (rule that)
  have "add_connections s name (c # cs) = Inr s'" using lk s'(1) by (simp add: s2_def)
  moreover have "\<forall>k. map_of s' k = (if k \<in> set (c # cs) then
        Some ((case map_of s k of None \<Rightarrow> program k None None [] | Some p \<Rightarrow> p)\<lparr>proot := Some name\<rparr>)
      else map_of s k)"
    using s'(4) by (auto simp: m2 p_def)
  ultimately show ?case using s'(2,3) k2 by auto
qed

lemma line_conns_insert [simp]: "line_conns (insert (n, w, cs) D) = set cs \<union> line_conns D"
  by (simp add: line_conns_def)

lemma update_attributes_line:
  "w \<noteq> 0 \<Longrightarrow> pname q = n \<Longrightarrow>
   update_attributes q (program n (Some w) None cs) = q\<lparr>weight := Some w, connections := (if cs = [] then connections q else cs)\<rparr>"
  by (simp add: update_attributes_def program_def)

lemma entry_ok_other:
  "entry_ok D k p \<Longrightarrow> k \<noteq> n \<Longrightarrow> k \<notin> set cs \<Longrightarrow> entry_ok (insert (n, w, cs) D) k p"
  unfolding entry_ok_def by (auto split: if_splits)

lemma entry_ok_conn:
  assumes "k \<noteq> n" "k \<in> set cs" "entry_ok D k p \<or> (k \<notin> fst ` D \<and> p = program k None None [])"
  shows "entry_ok (insert (n, w, cs) D) k (p\<lparr>proot := Some n\<rparr>)"
  using assms(3)
proof
  assume "entry_ok D k p"
  then show ?thesis using assms(1,2) unfolding entry_ok_def by (auto split: if_splits)
next
  assume "k \<notin> fst ` D \<and> p = program k None None []"
  then show ?thesis using assms(1,2) unfolding entry_ok_def program_def by auto
qed

lemma entry_ok_line:
  assumes "pname q = n" "weight_above q = None" "proot q = None \<longleftrightarrow> n \<notin> line_conns D"
    "\<forall>r. proot q = Some r \<longrightarrow> (\<exists>w cs. (r, w, cs) \<in> D \<and> n \<in> set cs)"
  shows "entry_ok (insert (n, w, cs) D) n
    ((if n \<in> set cs then (\<lambda>p. p\<lparr>proot := Some n\<rparr>) else id) (q\<lparr>weight := Some w, connections := cs\<rparr>))"
  using assms unfolding entry_ok_def by (auto split: if_splits) blast+

lemma build_step_inv:
  assumes inv: "build_inv D s" and n: "n \<notin> fst ` D" and w: "w \<noteq> 0"
  shows "\<exists>s'. (\<forall>ps. build_tower s (line_prog (n, w, cs) # ps) = build_tower s' ps) \<and>
    build_inv (insert (n, w, cs) D) s'"
proof -
  let ?p0 = "program n (Some w) None cs"
  have lp: "line_prog (n, w, cs) = ?p0" by (simp add: line_prog_def)
  define q where "q = (case map_of s n of None \<Rightarrow> ?p0 | Some q \<Rightarrow> q)"
  have ds: "distinct (map fst s)" using inv by (simp add: build_inv_def)
  have q_ok: "pname q = n \<and> weight_above q = None \<and> (if cs = [] then connections q else cs) = cs \<and>
    (proot q = None \<longleftrightarrow> n \<notin> line_conns D) \<and>
    (\<forall>r. proot q = Some r \<longrightarrow> (\<exists>w cs. (r, w, cs) \<in> D \<and> n \<in> set cs))"
  proof (cases "map_of s n")
    case None
    then have "n \<notin> fst ` set s" by (simp add: map_of_eq_None_iff)
    then have "n \<notin> line_conns D" using inv by (auto simp: build_inv_def)
    then show ?thesis using None by (simp add: q_def program_def)
  next
    case (Some p)
    then have "entry_ok D n p" using inv by (simp add: build_inv_def)
    then show ?thesis using Some n by (simp add: q_def entry_ok_def)
  qed
  let ?q' = "q\<lparr>weight := Some w, connections := cs\<rparr>"
  define s2 where "s2 = d_set (d_setdefault s n ?p0) n ?q'"
  have lk: "d_lookup (d_setdefault s n ?p0) n = Inr q"
    by (cases "map_of s n") (simp_all add: q_def d_lookup_def map_of_d_setdefault)
  have ua: "update_attributes q ?p0 = ?q'" using update_attributes_line[OF w, of q n cs] q_ok by simp
  have m2: "map_of s2 = (map_of s)(n \<mapsto> ?q')"
    by (simp add: s2_def map_of_d_set map_of_d_setdefault split: option.split)
  have d2: "distinct (map fst s2)" using ds by (simp add: s2_def distinct_d_set distinct_d_setdefault)
  have k2: "fst ` set s2 = insert n (fst ` set s)" by (simp add: s2_def keys_d_set keys_d_setdefault)
  obtain s' where s': "add_connections s2 n cs = Inr s'" "distinct (map fst s')"
    "fst ` set s' = fst ` set s2 \<union> set cs"
    "\<forall>k. map_of s' k = (if k \<in> set cs then
        Some ((case map_of s2 k of None \<Rightarrow> program k None None [] | Some p \<Rightarrow> p)\<lparr>proot := Some n\<rparr>)
      else map_of s2 k)"
    using add_connections_map[OF d2, of n cs] by (elim exE conjE) (rule that)
  have "entry_ok (insert (n, w, cs) D) k p" if kp: "map_of s' k = Some p" for k p
  proof (cases "k = n")
    case True
    then have "p = (if n \<in> set cs then (\<lambda>p. p\<lparr>proot := Some n\<rparr>) else id) ?q'"
      using kp s'(4) m2 by (auto split: if_splits)
    then show ?thesis using True entry_ok_line[of q n D w cs] q_ok by simp
  next
    case False
    show ?thesis
    proof (cases "k \<in> set cs")
      case True
      define p1 where "p1 = (case map_of s k of None \<Rightarrow> program k None None [] | Some p \<Rightarrow> p)"
      have pp: "p = p1\<lparr>proot := Some n\<rparr>" using kp s'(4) m2 False True by (simp add: p1_def)
      have "entry_ok D k p1 \<or> (k \<notin> fst ` D \<and> p1 = program k None None [])"
      proof (cases "map_of s k")
        case None
        then have "k \<notin> fst ` set s" by (simp add: map_of_eq_None_iff)
        then show ?thesis using None inv by (auto simp: p1_def build_inv_def)
      qed (use inv in \<open>simp add: p1_def build_inv_def\<close>)
      then show ?thesis using entry_ok_conn[OF False True] pp by simp
    next
      case nc: False
      then have "map_of s k = Some p" using kp s'(4) m2 False by simp
      then have "entry_ok D k p" using inv by (simp add: build_inv_def)
      then show ?thesis using entry_ok_other False nc by blast
    qed
  qed
  moreover have "fst ` set s' = fst ` insert (n, w, cs) D \<union> line_conns (insert (n, w, cs) D)"
    using s'(3) k2 inv by (auto simp: build_inv_def)
  moreover have "build_tower s (?p0 # ps) = build_tower s' ps" for ps
    using s'(1) lk ua by (simp add: program_def s2_def)
  ultimately show ?thesis unfolding lp build_inv_def using s'(2) by blast
qed

lemma build_tower_inv:
  "build_inv D s \<Longrightarrow> distinct (map fst xs) \<Longrightarrow> fst ` set xs \<inter> fst ` D = {} \<Longrightarrow>
   \<forall>(n, w, cs) \<in> set xs. w \<noteq> 0 \<Longrightarrow>
   \<exists>s'. build_tower s (map line_prog xs) = Inr s' \<and> build_inv (D \<union> set xs) s'"
proof (induction xs arbitrary: D s)
  case (Cons x xs)
  obtain n w cs where x: "x = (n, w, cs)" by (cases x)
  have "n \<notin> fst ` D" "w \<noteq> 0" using Cons.prems(3,4) x by auto
  then obtain s2 where s2: "\<forall>ps. build_tower s (line_prog (n, w, cs) # ps) = build_tower s2 ps"
    "build_inv (insert (n, w, cs) D) s2"
    using build_step_inv[OF Cons.prems(1)] by blast
  have "fst ` set xs \<inter> fst ` insert (n, w, cs) D = {}" using Cons.prems(2,3) x by auto
  then obtain s' where "build_tower s2 (map line_prog xs) = Inr s'" "build_inv (insert (n, w, cs) D \<union> set xs) s'"
    using Cons.IH[OF s2(2)] Cons.prems(2,4) by auto
  then show ?case using s2(1) x by auto
qed simp

lemma build_inv_empty: "build_inv {} []"
  by (simp add: build_inv_def line_conns_def)

subsection \<open>The constructor\<close>

lemma prefix_keys_update: "prefix (map fst s) (map fst (AList.update k v s))"
  by (induction s) auto

lemma prefix_keys_set: "prefix (map fst s) (map fst (d_set s k v))"
  by (simp add: d_set_def prefix_keys_update)

lemma prefix_keys_setdefault: "prefix (map fst s) (map fst (d_setdefault s k v))"
  by (simp add: d_setdefault_def split: option.split)

lemma add_connections_prefix: "add_connections s name cs = Inr s' \<Longrightarrow> prefix (map fst s) (map fst s')"
proof (induction s name cs rule: add_connections.induct)
  case (2 s name c cs)
  let ?s1 = "d_setdefault s c (program c None None [])"
  obtain q where q: "d_lookup ?s1 c = Inr q" using d_lookup_d_setdefault[of s c] by blast
  let ?s2 = "d_set ?s1 c (q\<lparr>proot := Some name\<rparr>)"
  have "add_connections ?s2 name cs = Inr s'" using "2.prems" q by simp
  then have "prefix (map fst ?s2) (map fst s')" using "2.IH"[OF refl q] by blast
  moreover have "prefix (map fst s) (map fst ?s2)"
    by (rule prefix_order.trans[OF prefix_keys_setdefault prefix_keys_set])
  ultimately show ?case by (rule prefix_order.trans[rotated])
qed simp

lemma build_tower_prefix: "build_tower s ps = Inr s' \<Longrightarrow> prefix (map fst s) (map fst s')"
proof (induction s ps rule: build_tower.induct)
  case (2 s p ps)
  let ?s1 = "d_setdefault s (pname p) p"
  obtain q where q: "d_lookup ?s1 (pname p) = Inr q" using d_lookup_d_setdefault[of s "pname p" p] by blast
  let ?s2 = "d_set ?s1 (pname p) (update_attributes q p)"
  obtain s3 where s3: "add_connections ?s2 (pname p) (connections p) = Inr s3" "build_tower s3 ps = Inr s'"
    using "2.prems" q by (simp split: sum.splits)
  have "prefix (map fst s3) (map fst s')" using "2.IH"[OF refl q s3(1)] s3(2) by blast
  moreover have "prefix (map fst s) (map fst s3)"
    by (rule prefix_order.trans[OF prefix_order.trans[OF prefix_keys_setdefault prefix_keys_set] add_connections_prefix[OF s3(1)]])
  ultimately show ?case by (rule prefix_order.trans[rotated])
qed simp

lemma build_tower_first:
  assumes "build_tower [] (p # ps) = Inr s'"
  shows "\<exists>q rest. s' = (pname p, q) # rest"
proof -
  obtain s3 where s3: "add_connections [(pname p, update_attributes p p)] (pname p) (connections p) = Inr s3"
    "build_tower s3 ps = Inr s'"
    using assms by (simp add: d_setdefault_def d_lookup_def d_set_def split: sum.splits)
  have "prefix [pname p] (map fst s')"
    using prefix_order.trans[OF add_connections_prefix[OF s3(1)] build_tower_prefix[OF s3(2)]] by simp
  then show ?thesis by (cases s') auto
qed

lemma tw_rel_lines:
  assumes "\<forall>k p w. map_of s k = Some p \<longrightarrow> weight p = Some w \<longrightarrow> (k, w, connections p) \<in> set xs"
  shows "tw_rel s n t \<Longrightarrow> tower_weight xs n t"
proof (induction rule: tw_rel.induct)
  case (tw_intro n p w ts)
  then show ?case using assms by (auto intro!: tower_weight_intro elim: list_all2_mono)
qed

lemma build_inv_lines:
  assumes "build_inv (set xs) s"
  shows "\<forall>k p w. map_of s k = Some p \<longrightarrow> weight p = Some w \<longrightarrow> (k, w, connections p) \<in> set xs"
proof (intro allI impI)
  fix k p w
  assume a: "map_of s k = Some p" "weight p = Some w"
  then have "entry_ok (set xs) k p" using assms unfolding build_inv_def by blast
  then show "(k, w, connections p) \<in> set xs" using a(2) unfolding entry_ok_def by (auto split: if_splits)
qed

lemma build_inv_tower_ok:
  assumes "build_inv (set xs) s" "line_conns (set xs) \<subseteq> fst ` set xs"
  shows "tower_ok s" "fresh s"
proof -
  have keys: "fst ` set s = fst ` set xs" using assms by (auto simp: build_inv_def)
  have e: "entry_ok (set xs) k p" if "(k, p) \<in> set s" for k p
    using assms(1) that unfolding build_inv_def by (metis map_of_is_SomeI)
  have "weight p \<noteq> None \<and> set (connections p) \<subseteq> fst ` set s" if kp: "(k, p) \<in> set s" for k p
  proof -
    have "k \<in> fst ` set xs" using keys kp by force
    then obtain w where "(k, w, connections p) \<in> set xs" "weight p = Some w"
      using e[OF kp] unfolding entry_ok_def by auto
    moreover have "set (connections p) \<subseteq> line_conns (set xs)"
      using calculation(1) unfolding line_conns_def by force
    ultimately show ?thesis using assms(2) keys by auto
  qed
  then show "tower_ok s" unfolding tower_ok_def by auto
  show "fresh s" using e unfolding fresh_def entry_ok_def by auto
qed

lemma fr_loop_ok:
  fixes rk :: "string \<Rightarrow> nat"
  assumes inv: "build_inv (set xs) s" and rk: "\<forall>(n, w, cs) \<in> set xs. \<forall>c \<in> set cs. rk c < rk n"
  shows "r \<in> fst ` set s \<Longrightarrow>
    \<exists>b. fr_loop s (Some r) prev = Some (Inr b) \<and> b \<in> fst ` set s \<and> b \<notin> line_conns (set xs)"
proof (induction "Max (rk ` fst ` set s) - rk r" arbitrary: r prev rule: less_induct)
  case less
  obtain p where p: "map_of s r = Some p" using less.prems by (metis map_of_eq_None_iff not_None_eq)
  have e: "entry_ok (set xs) r p" using inv p unfolding build_inv_def by blast
  have step: "fr_loop s (Some r) prev = fr_loop s (proot p) (Some r)"
    using e p by (subst fr_loop.simps) (simp add: d_lookup_def entry_ok_def)
  show ?case
  proof (cases "proot p")
    case None
    have "fr_loop s None (Some r) = Some (Inr r)" by (subst fr_loop.simps) simp
    then show ?thesis using None step e less.prems by (simp add: entry_ok_def)
  next
    case (Some r')
    then obtain w cs where l: "(r', w, cs) \<in> set xs" "r \<in> set cs" using e unfolding entry_ok_def by blast
    have r'k: "r' \<in> fst ` set s" using l(1) inv unfolding build_inv_def by force
    have "rk r < rk r'" using rk l by fastforce
    moreover have "rk r' \<le> Max (rk ` fst ` set s)" using r'k by simp
    ultimately have "Max (rk ` fst ` set s) - rk r' < Max (rk ` fst ` set s) - rk r" by simp
    then show ?thesis using less.hyps[OF _ r'k] step Some by simp
  qed
qed

lemma check_total_weight_ok:
  assumes "tower_ok s" "ranked rk s" "fresh s" "n \<in> fst ` set s"
  shows "\<exists>s' t p'. check_total_weight s n = Some (Inr (s', Some t)) \<and> tw_rel s n t \<and>
    map_of s' n = Some p' \<and> node_ok s n p'"
proof -
  have "\<forall>m \<in> set [n]. rk m < Suc (rk n)" by simp
  from ctw_ok[OF assms(1,2) this _ fresh_mem_ok[OF assms(3)]] assms(4)
  obtain s' ws where r: "ctw s [n] = Some (Inr (s', ws))" "mem_ok s s'"
    "list_all2 (\<lambda>m w. \<exists>t. w = Some t \<and> tw_rel s m t) [n] ws" "computed s' n" by auto
  obtain t where t: "ws = [Some t]" "tw_rel s n t" using r(3) by (auto simp: list_all2_Cons1)
  obtain p' where p': "map_of s' n = Some p'" "weight_above p' \<noteq> None" using r(4) unfolding computed_def by blast
  have "node_ok s n p'" using mem_ok_at[OF r(2) p'(1)] p'(2) by blast
  then show ?thesis using r(1) t p' by (simp add: check_total_weight_def)
qed

lemma build_lines:
  assumes "distinct (map fst xs)" "\<forall>(n, w, cs) \<in> set xs. w \<noteq> 0"
  shows "\<exists>s. build_tower [] (map line_prog xs) = Inr s \<and> build_inv (set xs) s"
  using build_tower_inv[OF build_inv_empty assms(1) _ assms(2)] by simp

lemma build_lines_first:
  assumes "build_tower [] (map line_prog xs) = Inr s" "build_inv (set xs) s" "xs \<noteq> []"
  obtains q rest where "s = (fst (hd xs), q) # rest" "map_of s (fst (hd xs)) = Some q"
    "entry_ok (set xs) (fst (hd xs)) q"
proof -
  obtain x xs' where x: "xs = x # xs'" using assms(3) by (cases xs) auto
  have "pname (line_prog x) = fst x" by (simp add: line_prog_def program_def split: prod.split)
  then obtain q rest where "s = (fst (hd xs), q) # rest"
    using build_tower_first[of "line_prog x" "map line_prog xs'" s] assms(1) x by auto
  moreover have "entry_ok (set xs) (fst (hd xs)) q" using assms(2) calculation unfolding build_inv_def by simp
  ultimately show ?thesis using that by simp
qed

text \<open>C6: On input lines with distinct names and non-zero weights, in which every
  program on a disc has its own line, the programs on a disc rank below the program
  holding it, and the first line's program stands on some disc, the constructor
  \<open>tower(...)\<close> returns. Its root is the bottom program (it stands on no disc), and
  \<open>check_total_weight\<close> has stored for the root the weight of the subtowers on its
  disc, its total weight (the puzzle's weight of the whole tower), and
  \<open>is_balanced\<close> true exactly when those subtowers weigh the same.\<close>

theorem tower_init_correct:
  fixes rk :: "string \<Rightarrow> nat"
  assumes "distinct (map fst xs)"
    and "\<forall>(n, w, cs) \<in> set xs. w \<noteq> 0 \<and> set cs \<subseteq> fst ` set xs \<and> (\<forall>c \<in> set cs. rk c < rk n)"
    and "xs \<noteq> []" and "fst (hd xs) \<in> line_conns (set xs)"
  shows "\<exists>t p w cs ts. tower_init (map line_prog xs) = Some (Inr t) \<and> troot t \<notin> line_conns (set xs) \<and>
    (troot t, w, cs) \<in> set xs \<and> map_of (tstructure t) (troot t) = Some p \<and> list_all2 (tower_weight xs) cs ts \<and>
    weight_above p = Some (sum_list ts) \<and> total_weight p = Some (w + sum_list ts) \<and>
    is_balanced p = Some (\<forall>a \<in> set ts. \<forall>b \<in> set ts. a = b)"
proof -
  obtain s where s: "build_tower [] (map line_prog xs) = Inr s" "build_inv (set xs) s"
    using build_lines assms(1,2) by fastforce
  have lc: "line_conns (set xs) \<subseteq> fst ` set xs" using assms(2) unfolding line_conns_def by auto
  have keys: "fst ` set s = fst ` set xs" using s(2) lc unfolding build_inv_def by auto
  have ok: "tower_ok s" "fresh s" using build_inv_tower_ok[OF s(2) lc] by auto
  have lines: "\<forall>k p w. map_of s k = Some p \<longrightarrow> weight p = Some w \<longrightarrow> (k, w, connections p) \<in> set xs"
    using build_inv_lines[OF s(2)] .
  have rks: "\<forall>(n, w, cs) \<in> set xs. \<forall>c \<in> set cs. rk c < rk n" using assms(2) by auto
  have "rk c < rk k" if "(k, p) \<in> set s" "c \<in> set (connections p)" for k p c
  proof -
    have kp: "map_of s k = Some p" using that(1) s(2) unfolding build_inv_def by (simp add: map_of_is_SomeI)
    obtain w where "weight p = Some w" using tower_ok_at(1)[OF ok(1) kp] by blast
    then have "(k, w, connections p) \<in> set xs" using lines kp by blast
    then show ?thesis using rks that(2) by fastforce
  qed
  then have rkd: "ranked rk s" unfolding ranked_def by blast
  obtain q rest where q: "s = (fst (hd xs), q) # rest" "map_of s (fst (hd xs)) = Some q"
    "entry_ok (set xs) (fst (hd xs)) q" using build_lines_first[OF s assms(3)] by blast
  obtain r' where r': "proot q = Some r'" using q(3) assms(4) unfolding entry_ok_def by auto
  then obtain w0 cs0 where "(r', w0, cs0) \<in> set xs" using q(3) unfolding entry_ok_def by blast
  then have r'k: "r' \<in> fst ` set s" using keys by force
  obtain b where b: "fr_loop s (Some r') None = Some (Inr b)" "b \<in> fst ` set s" "b \<notin> line_conns (set xs)"
    using fr_loop_ok[OF s(2) rks r'k] by blast
  have fr: "find_root s = Some (Inr b)" using b(1) r' q(1) by (simp add: find_root_def)
  obtain s' t p' where c: "check_total_weight s b = Some (Inr (s', Some t))" "map_of s' b = Some p'"
    "node_ok s b p'" using check_total_weight_ok[OF ok(1) rkd ok(2) b(2)] by blast
  have ti: "tower_init (map line_prog xs) = Some (Inr \<lparr>tstructure = s', troot = b\<rparr>)"
    using s(1) fr c(1) by (simp add: tower_init_def)
  obtain p0 w ts where n: "map_of s b = Some p0" "weight p0 = Some w" "list_all2 (tw_rel s) (connections p0) ts"
    "weight_above p' = Some (sum_list ts)" "total_weight p' = Some (w + sum_list ts)"
    "is_balanced p' = Some (\<forall>a \<in> set ts. \<forall>b \<in> set ts. a = b)"
    using c(3) unfolding node_ok_def by blast
  have "list_all2 (tower_weight xs) (connections p0) ts"
    using n(3) tw_rel_lines[OF lines] by (auto elim: list_all2_mono)
  moreover have "(b, w, connections p0) \<in> set xs" using lines n(1,2) by blast
  ultimately show ?thesis using ti b(3) c(2) n(4-6) by fastforce
qed

text \<open>C9: When the first input line names the bottom program, \<open>_find_root\<close> raises
  UnboundLocalError: the \<open>while\<close> loop never runs, so \<open>prev_root\<close> is never bound.\<close>

theorem tower_init_root_first:
  assumes "distinct (map fst xs)" "\<forall>(n, w, cs) \<in> set xs. w \<noteq> 0" "xs \<noteq> []"
    and "fst (hd xs) \<notin> line_conns (set xs)"
  shows "tower_init (map line_prog xs) = Some (Inl UnboundLocalError)"
proof -
  obtain s where s: "build_tower [] (map line_prog xs) = Inr s" "build_inv (set xs) s"
    using build_lines assms(1,2) by fastforce
  obtain q rest where q: "s = (fst (hd xs), q) # rest" "entry_ok (set xs) (fst (hd xs)) q"
    using build_lines_first[OF s assms(3)] by blast
  have "proot q = None" using q(2) assms(4) unfolding entry_ok_def by simp
  then have "find_root s = Some (Inl UnboundLocalError)"
    using q(1) by (simp add: find_root_def fr_loop.simps)
  then show ?thesis using s(1) by (simp add: tower_init_def)
qed

end
