(* ===== verification/Particles.thy ===== *)
theory Particles
  imports Prelude Complex_Main "HOL-Library.Product_Lexorder"
begin

text \<open>
  Day 20, "Particle Swarm" (\<open>src/code/day20/day20.py\<close>). The class \<open>particle\<close> is
  the record \<open>particle\<close>, its methods are functions of it, and \<open>load_particles\<close>
  parses the lines of the input file. Part 1, \<open>get_closest_to_origin\<close>, is two
  loops: \<open>gco_first\<close> and \<open>gco_second\<close>, the second as a \<open>partial_function\<close>
  because it appends to the list it iterates. Part 2 is \<open>intersects\<close> (the
  per-dimension roots of the quadratic, in real arithmetic standing for the
  floats) and \<open>get_particle_intersections\<close>, written as \<open>gpi_with\<close> over the
  pairwise method so that the collision loop can be proved against the puzzle's
  survivors \<open>spec_surv\<close> for any exact method, and \<open>intersects\<close> judged apart.
\<close>

section \<open>The program\<close>

record particle =
  position :: "int list"
  velocity :: "int list"
  acceleration :: "int list"
  ndims :: nat

definition particle_init :: "int list \<Rightarrow> int list \<Rightarrow> int list \<Rightarrow> particle" where
  "particle_init p v a = \<lparr>position = p, velocity = v, acceleration = a, ndims = length p\<rparr>"

definition abs_acceleration :: "particle \<Rightarrow> int" where
  "abs_acceleration pt = sum_list (map abs (acceleration pt))"

definition abs_velocity :: "particle \<Rightarrow> int" where
  "abs_velocity pt = sum_list (map abs (velocity pt))"

definition abs_distance :: "particle \<Rightarrow> int" where
  "abs_distance pt = sum_list (map abs (position pt))"

text \<open>\<open>get_position(t)\<close>; the float arithmetic is real arithmetic, which the floats
  match while the values stay below \<open>2^53\<close> (\<open>a * t * (t + 1)\<close> is even).\<close>

definition get_position :: "particle \<Rightarrow> int \<Rightarrow> real list py" where
  "get_position pt t = py_map (\<lambda>i.
     case py_index (position pt) (int i) of Inl e \<Rightarrow> Inl e | Inr p \<Rightarrow>
     case py_index (velocity pt) (int i) of Inl e \<Rightarrow> Inl e | Inr v \<Rightarrow>
     case py_index (acceleration pt) (int i) of Inl e \<Rightarrow> Inl e | Inr a \<Rightarrow>
       Inr (of_int p + of_int v * of_int t + 1 / 2 * (of_int a * of_int t * (of_int t + 1)))) [0..<ndims pt]"

text \<open>\<open>load_particles\<close> on one line: the three fields with \<open>strip(',')\<close>, each read
  by \<open>strip('p=<>')\<close> (and \<open>v\<close>, \<open>a\<close>), \<open>split(',')\<close> and \<open>int\<close>; \<open>particle(*pva)\<close>
  takes exactly three arguments.\<close>

definition parse_vec :: "string \<Rightarrow> string \<Rightarrow> int list py" where
  "parse_vec cs s = py_map py_int (py_split CHR '','' (py_strip_chars cs s))"

definition parse_particle :: "string \<Rightarrow> particle py" where
  "parse_particle line =
     (let pva = map (py_strip_chars '','') (split_ws line) in
      case py_index pva 0 of Inl e \<Rightarrow> Inl e | Inr s0 \<Rightarrow>
      case parse_vec ''p=<>'' s0 of Inl e \<Rightarrow> Inl e | Inr p \<Rightarrow>
      case py_index pva 1 of Inl e \<Rightarrow> Inl e | Inr s1 \<Rightarrow>
      case parse_vec ''v=<>'' s1 of Inl e \<Rightarrow> Inl e | Inr v \<Rightarrow>
      case py_index pva 2 of Inl e \<Rightarrow> Inl e | Inr s2 \<Rightarrow>
      case parse_vec ''a=<>'' s2 of Inl e \<Rightarrow> Inl e | Inr a \<Rightarrow>
      if length pva \<noteq> 3 then Inl TypeError else Inr (particle_init p v a))"

definition load_particles :: "string list \<Rightarrow> particle list py" where
  "load_particles lines = py_map parse_particle lines"

subsection \<open>Part 1: \<open>get_closest_to_origin\<close>\<close>

text \<open>The first loop over \<open>enumerate(particles)\<close>: the running minimum of the
  acceleration and the indices found at it. The index that first sets the minimum
  (always 0) is not recorded.\<close>

fun gco_first :: "particle list \<Rightarrow> nat \<Rightarrow> int option \<Rightarrow> nat list \<Rightarrow> int option \<times> nat list" where
  "gco_first [] i mm cs = (mm, cs)"
| "gco_first (pt # pts) i mm cs =
     (let m = abs_acceleration pt in
      case mm of None \<Rightarrow> gco_first pts (Suc i) (Some m) cs
      | Some mn \<Rightarrow> if m = mn then gco_first pts (Suc i) mm (cs @ [i])
                  else if m < mn then gco_first pts (Suc i) (Some m) [i]
                  else gco_first pts (Suc i) mm cs)"

text \<open>The second loop, \<open>for i in closest_particles\<close>, iterates the list object bound
  when it starts (\<open>L\<close>, read at position \<open>k\<close>) while its body appends to whatever
  list the name is bound to: \<open>L\<close> itself until the first \<open>closest_particles = [i]\<close>
  (\<open>C = None\<close>), a fresh list afterwards (\<open>C = Some c\<close>). An append to \<open>L\<close> extends
  the iteration, so the loop may never end.\<close>

partial_function (option) gco_second ::
  "particle list \<Rightarrow> nat list \<Rightarrow> nat \<Rightarrow> nat list option \<Rightarrow> int option \<Rightarrow> nat list py option" where
  "gco_second ps L k C mm =
     (if k < length L then
        (let i = L ! k in
         case py_index ps (int i) of Inl e \<Rightarrow> Some (Inl e) | Inr pt \<Rightarrow>
         let m = abs_velocity pt in
         case mm of None \<Rightarrow> gco_second ps L (Suc k) C (Some m)
         | Some mn \<Rightarrow>
           if m = mn then
             (case C of None \<Rightarrow> gco_second ps (L @ [i]) (Suc k) None mm
              | Some c \<Rightarrow> gco_second ps L (Suc k) (Some (c @ [i])) mm)
           else if m < mn then gco_second ps L (Suc k) (Some [i]) (Some m)
           else gco_second ps L (Suc k) C mm)
      else Some (Inr (case C of None \<Rightarrow> L | Some c \<Rightarrow> c)))"

declare gco_second.simps [code]

definition get_closest_to_origin :: "particle list \<Rightarrow> nat list py option" where
  "get_closest_to_origin ps = (case gco_first ps 0 None [] of (_, cs) \<Rightarrow> gco_second ps cs 0 None None)"

subsection \<open>Part 2: \<open>intersects\<close> and \<open>get_particle_intersections\<close>\<close>

text \<open>Python's \<open>round\<close> on a float (half to even), \<open>int\<close> of a float (towards zero),
  and \<open>math.isclose\<close> with its defaults (\<open>rel_tol = 1e-9\<close>, \<open>abs_tol = 0\<close>); the
  floats of \<open>intersects\<close> are real numbers.\<close>

definition py_round :: "real \<Rightarrow> int" where
  "py_round x = (let f = \<lfloor>x\<rfloor>; d = x - of_int f in
     if d < 1 / 2 then f else if 1 / 2 < d then f + 1 else if even f then f else f + 1)"

definition py_trunc :: "real \<Rightarrow> int" where
  "py_trunc x = (if 0 \<le> x then \<lfloor>x\<rfloor> else \<lceil>x\<rceil>)"

definition isclose :: "real \<Rightarrow> real \<Rightarrow> bool" where
  "isclose a b \<longleftrightarrow> \<bar>a - b\<bar> \<le> max (1 / 10 ^ 9 * max \<bar>a\<bar> \<bar>b\<bar>) 0"

text \<open>One pass of the loop of \<open>intersects\<close>: the candidate times of dimension \<open>i\<close>.\<close>

definition dim_solns :: "particle \<Rightarrow> particle \<Rightarrow> nat \<Rightarrow> int list py" where
  "dim_solns p1 p2 i =
     (case py_index (position p1) (int i) of Inl e \<Rightarrow> Inl e | Inr x1 \<Rightarrow>
      case py_index (position p2) (int i) of Inl e \<Rightarrow> Inl e | Inr x2 \<Rightarrow>
      case py_index (acceleration p1) (int i) of Inl e \<Rightarrow> Inl e | Inr a1 \<Rightarrow>
      case py_index (acceleration p2) (int i) of Inl e \<Rightarrow> Inl e | Inr a2 \<Rightarrow>
      case py_index (velocity p1) (int i) of Inl e \<Rightarrow> Inl e | Inr v1 \<Rightarrow>
      case py_index (velocity p2) (int i) of Inl e \<Rightarrow> Inl e | Inr v2 \<Rightarrow>
      let dp = of_int (x1 - x2) :: real; da = of_int (a1 - a2) * (1 / 2); dv = of_int (v1 - v2) + da;
          solns = (if a1 \<noteq> a2 then
                     (let D = dv * dv - 4 * da * dp in
                      if 0 \<le> D then (let D' = sqrt D; denom = 2 * da in [(- dv + D') / denom, (- dv - D') / denom])
                      else [])
                   else if dv \<noteq> 0 then [- dp / dv] else [])
      in Inr (map py_trunc (filter (\<lambda>s. 0 \<le> s \<and> isclose s (of_int (py_round s))) solns)))"

fun isect_loop :: "particle \<Rightarrow> particle \<Rightarrow> nat list \<Rightarrow> int set list \<Rightarrow> int set list py" where
  "isect_loop p1 p2 [] pss = Inr pss"
| "isect_loop p1 p2 (i # is) pss =
     (case dim_solns p1 p2 i of Inl e \<Rightarrow> Inl e | Inr solns \<Rightarrow>
      if solns = [] then Inr pss
      else case py_update pss (int i) (set solns) of Inl e \<Rightarrow> Inl e | Inr pss' \<Rightarrow> isect_loop p1 p2 is pss')"

text \<open>\<open>list(set.intersection(*possible_solutions))\<close> is listed in ascending order.\<close>

definition intersects :: "particle \<Rightarrow> particle \<Rightarrow> int list py" where
  "intersects p1 p2 =
     (case isect_loop p1 p2 [0..<ndims p1] [{}, {}, {}] of Inl e \<Rightarrow> Inl e
      | Inr pss \<Rightarrow> Inr (sorted_list_of_set (fold (\<lambda>s acc. acc \<inter> s) (tl pss) (hd pss))))"

text \<open>\<open>get_particle_intersections\<close>, over the method that gives the intersection
  times of two particles (\<open>ix\<close>). The dictionary maps a time to the set of pairs
  meeting then; the loop over a set of pairs visits them in ascending order.\<close>

fun add_times :: "(int, (nat \<times> nat) set) pydict \<Rightarrow> nat \<times> nat \<Rightarrow> int list \<Rightarrow> (int, (nat \<times> nat) set) pydict" where
  "add_times d pr [] = d"
| "add_times d pr (t # ts) =
     (let d1 = d_setdefault d t {} in add_times (d_set d1 t (insert pr (d_get d1 t {}))) pr ts)"

definition particle_pairs :: "nat \<Rightarrow> (nat \<times> nat) list" where
  "particle_pairs n = concat (map (\<lambda>i. map (\<lambda>j. (i, j)) [Suc i..<n]) [0..<n - 1])"

fun pairs_loop :: "(particle \<Rightarrow> particle \<Rightarrow> int list py) \<Rightarrow> particle list \<Rightarrow> (int, (nat \<times> nat) set) pydict \<Rightarrow>
    (nat \<times> nat) list \<Rightarrow> (int, (nat \<times> nat) set) pydict py" where
  "pairs_loop ix ps d [] = Inr d"
| "pairs_loop ix ps d ((i, j) # prs) =
     (case ix (ps ! i) (ps ! j) of Inl e \<Rightarrow> Inl e | Inr ts \<Rightarrow> pairs_loop ix ps (add_times d (i, j) ts) prs)"

definition collisions :: "nat set \<Rightarrow> (nat \<times> nat) set \<Rightarrow> nat set" where
  "collisions S P = fold (\<lambda>(i, j) c. if i \<in> S \<and> j \<in> S then c \<union> {i, j} else c) (sorted_list_of_set P) {}"

fun time_loop :: "(int, (nat \<times> nat) set) pydict \<Rightarrow> nat set \<Rightarrow> int list \<Rightarrow> nat set" where
  "time_loop d S [] = S"
| "time_loop d S (t # ts) = time_loop d (S - collisions S (d_get d t {})) ts"

definition gpi_with :: "(particle \<Rightarrow> particle \<Rightarrow> int list py) \<Rightarrow> particle list \<Rightarrow> nat set py" where
  "gpi_with ix ps =
     (case pairs_loop ix ps [] (particle_pairs (length ps)) of Inl e \<Rightarrow> Inl e
      | Inr d \<Rightarrow> Inr (time_loop d {0..<length ps} (sort (map fst d))))"

definition get_particle_intersections :: "particle list \<Rightarrow> nat set py" where
  "get_particle_intersections ps = gpi_with intersects ps"

section \<open>Specification\<close>

text \<open>The puzzle's motion: at tick \<open>t\<close> the velocity has grown by \<open>t\<close> accelerations
  and the position by the velocities of ticks \<open>1 .. t\<close>; two particles collide at
  \<open>t \<ge> 0\<close> when their positions agree. \<open>spec_surv\<close> removes, tick by tick, every
  survivor that meets another survivor.\<close>

definition traj :: "particle \<Rightarrow> int \<Rightarrow> int list" where
  "traj pt t = map (\<lambda>k. position pt ! k + velocity pt ! k * t + acceleration pt ! k * (t * (t + 1) div 2)) [0..<ndims pt]"

definition collide :: "particle \<Rightarrow> particle \<Rightarrow> int \<Rightarrow> bool" where
  "collide p q t \<longleftrightarrow> 0 \<le> t \<and> traj p t = traj q t"

fun spec_surv :: "particle list \<Rightarrow> nat set \<Rightarrow> int list \<Rightarrow> nat set" where
  "spec_surv ps S [] = S"
| "spec_surv ps S (t # ts) = spec_surv ps (S - Set.filter (\<lambda>i. \<exists>j \<in> S. j \<noteq> i \<and> collide (ps ! i) (ps ! j) t) S) ts"

text \<open>An intersection method that lists the collision times up to a horizon.\<close>

definition ix_upto :: "int \<Rightarrow> particle \<Rightarrow> particle \<Rightarrow> int list py" where
  "ix_upto T p q = Inr (filter (collide p q) [0..T])"

text \<open>A particle of three dimensions, as \<open>load_particles\<close> reads the puzzle's lines.\<close>

definition particle_ok :: "particle \<Rightarrow> bool" where
  "particle_ok p \<longleftrightarrow> length (position p) = 3 \<and> length (velocity p) = 3 \<and> length (acceleration p) = 3 \<and> ndims p = 3"


abbreviation vel_at :: "particle list \<Rightarrow> nat \<Rightarrow> int" where
  "vel_at ps x \<equiv> abs_velocity (ps ! x)"

abbreviation acc_at :: "particle list \<Rightarrow> nat \<Rightarrow> int" where
  "acc_at ps x \<equiv> abs_acceleration (ps ! x)"

section \<open>Lemmas\<close>

lemma py_index_nat [simp]: "x < length xs \<Longrightarrow> py_index xs (int x) = Inr (xs ! x)"
  by (simp add: py_index_def)

lemma Min_insert_absorb:
  assumes "finite A" "b \<le> a"
  shows "Min (insert a (insert b A)) = Min (insert b A)"
proof -
  have "Min (insert b A) \<le> b" using assms(1) by (intro Min_le) auto
  then have "Min (insert b A) \<le> a" using assms(2) by simp
  moreover have "Min (insert a (insert b A)) = min a (Min (insert b A))"
    using Min_insert[of "insert b A" a] assms(1) by simp
  ultimately show ?thesis by simp
qed

lemma gco_first_eq:
  "gco_first pts i (Some mn) cs =
    (let M = Min (insert mn (abs_acceleration ` set pts)) in
     (Some M, (if M = mn then cs else []) @ map fst (filter (\<lambda>(j, pt). abs_acceleration pt = M) (enumerate i pts))))"
proof (induction pts arbitrary: i mn cs)
  case Nil
  then show ?case by simp
next
  case (Cons pt pts)
  let ?A = "abs_acceleration ` set pts"
  consider "abs_acceleration pt = mn" | "abs_acceleration pt < mn" | "mn < abs_acceleration pt" by fastforce
  then show ?case
  proof cases
    case 1
    then show ?thesis using Cons.IH by (simp add: Let_def insert_commute)
  next
    case 2
    have m: "Min (insert (abs_acceleration pt) ?A) \<le> abs_acceleration pt" by (rule Min_le) auto
    have "Min (insert mn (insert (abs_acceleration pt) ?A)) = Min (insert (abs_acceleration pt) ?A)"
      by (rule Min_insert_absorb) (use 2 in auto)
    moreover have "Min (insert (abs_acceleration pt) ?A) \<noteq> mn"
      using m 2 by linarith
    ultimately show ?thesis using 2 Cons.IH by (auto simp: Let_def)
  next
    case 3
    have m: "Min (insert mn ?A) \<le> mn" by (rule Min_le) auto
    have "Min (insert mn (insert (abs_acceleration pt) ?A)) = Min (insert mn ?A)"
      unfolding insert_commute[of mn] by (rule Min_insert_absorb) (use 3 in auto)
    moreover have "Min (insert mn ?A) \<noteq> abs_acceleration pt"
      using m 3 by linarith
    ultimately show ?thesis using 3 Cons.IH by (auto simp: Let_def)
  qed
qed

lemma gco_second_step:
  assumes "set L \<subseteq> {..<length ps}" "k < length L"
  shows "gco_second ps L k C (Some mn) =
    (let x = L ! k; m = vel_at ps x in
     if m = mn then (case C of None \<Rightarrow> gco_second ps (L @ [x]) (Suc k) None (Some mn)
                     | Some c \<Rightarrow> gco_second ps L (Suc k) (Some (c @ [x])) (Some mn))
     else if m < mn then gco_second ps L (Suc k) (Some [x]) (Some m)
     else gco_second ps L (Suc k) C (Some mn))"
proof -
  have "L ! k < length ps" using assms(1) nth_mem[OF assms(2)] by blast
  then show ?thesis using assms(2) by (subst gco_second.simps) (simp add: Let_def)
qed

lemma gco_second_done: "\<not> k < length L \<Longrightarrow> gco_second ps L k C mm = Some (Inr (case C of None \<Rightarrow> L | Some c \<Rightarrow> c))"
  by (subst gco_second.simps) simp

lemma gco_second_rebound:
  assumes "set L \<subseteq> {..<length ps}"
  shows "gco_second ps L k (Some c) (Some mn) = Some (Inr
    (let M = Min (insert mn (vel_at ps ` set (drop k L))) in
     if M = mn then c @ filter (\<lambda>x. vel_at ps x = mn) (drop k L) else filter (\<lambda>x. vel_at ps x = M) (drop k L)))"
proof (induction "length L - k" arbitrary: k c mn)
  case 0
  then show ?case by (simp add: gco_second_done)
next
  case (Suc n)
  then have k: "k < length L" by simp
  define x where "x = L ! k"
  have dr: "drop k L = x # drop (Suc k) L" using k by (simp add: x_def Cons_nth_drop_Suc)
  let ?A = "vel_at ps ` set (drop (Suc k) L)"
  have IH: "\<And>c mn. gco_second ps L (Suc k) (Some c) (Some mn) = Some (Inr
    (let M = Min (insert mn ?A) in
     if M = mn then c @ filter (\<lambda>x. vel_at ps x = mn) (drop (Suc k) L)
     else filter (\<lambda>x. vel_at ps x = M) (drop (Suc k) L)))"
    using Suc.hyps(1)[of "Suc k"] Suc.hyps(2) by simp
  have st: "gco_second ps L k (Some c) (Some mn) =
    (if vel_at ps x = mn then gco_second ps L (Suc k) (Some (c @ [x])) (Some mn)
     else if vel_at ps x < mn then gco_second ps L (Suc k) (Some [x]) (Some (vel_at ps x))
     else gco_second ps L (Suc k) (Some c) (Some mn))"
    using gco_second_step[OF assms k] by (simp add: x_def Let_def)
  consider "vel_at ps x = mn" | "vel_at ps x < mn" | "mn < vel_at ps x" by fastforce
  then show ?case
  proof cases
    case 1
    then show ?thesis using st IH by (simp add: dr Let_def insert_absorb2)
  next
    case 2
    have m: "Min (insert (vel_at ps x) ?A) \<le> vel_at ps x" by (rule Min_le) auto
    have "Min (insert mn (insert (vel_at ps x) ?A)) = Min (insert (vel_at ps x) ?A)"
      by (rule Min_insert_absorb) (use 2 in auto)
    moreover have "Min (insert (vel_at ps x) ?A) \<noteq> mn" using m 2 by linarith
    ultimately show ?thesis using 2 st IH by (auto simp: dr Let_def)
  next
    case 3
    have m: "Min (insert mn ?A) \<le> mn" by (rule Min_le) auto
    have "Min (insert mn (insert (vel_at ps x) ?A)) = Min (insert mn ?A)"
      unfolding insert_commute[of mn] by (rule Min_insert_absorb) (use 3 in auto)
    moreover have "Min (insert mn ?A) \<noteq> vel_at ps x" using m 3 by linarith
    ultimately show ?thesis using 3 st IH by (auto simp: dr Let_def)
  qed
qed

lemma gco_second_aliased_smaller:
  assumes "set L \<subseteq> {..<length ps}"
  shows "k \<le> j \<Longrightarrow> j < length L \<Longrightarrow> vel_at ps (L ! j) < m0 \<Longrightarrow>
    gco_second ps L k None (Some m0) =
      Some (Inr (filter (\<lambda>x. vel_at ps x = Min (vel_at ps ` set (drop k L))) (drop k L)))"
  using assms
proof (induction "j - k" arbitrary: k L)
  case 0
  then have jk: "j = k" by simp
  define x where "x = L ! k"
  have dr: "drop k L = x # drop (Suc k) L" using 0 jk by (simp add: x_def Cons_nth_drop_Suc)
  have lt: "vel_at ps x < m0" using 0 jk by (simp add: x_def)
  have "gco_second ps L k None (Some m0) = gco_second ps L (Suc k) (Some [x]) (Some (vel_at ps x))"
    using gco_second_step[OF 0(5), of k] 0 jk lt by (simp add: x_def Let_def)
  also have "\<dots> = Some (Inr (filter (\<lambda>y. vel_at ps y = Min (vel_at ps ` set (drop k L))) (drop k L)))"
    using gco_second_rebound[OF 0(5), of "Suc k" "[x]" "vel_at ps x"]
    by (auto simp: dr Let_def)
  finally show ?case .
next
  case (Suc n)
  then have k: "k < length L" "k < j" by auto
  define x where "x = L ! k"
  have dr: "drop k L = x # drop (Suc k) L" using k by (simp add: x_def Cons_nth_drop_Suc)
  have jin: "L ! j \<in> set (drop (Suc k) L)" using k Suc.prems(2) by (auto simp: in_set_conv_nth intro!: exI[of _ "j - Suc k"])
  let ?M = "Min (vel_at ps ` set (drop (Suc k) L))"
  have M: "?M \<le> vel_at ps (L ! j)" using jin by (intro Min_le) auto
  consider "vel_at ps x = m0" | "vel_at ps x < m0" | "m0 < vel_at ps x" by fastforce
  then show ?case
  proof cases
    case 1
    have st: "gco_second ps L k None (Some m0) = gco_second ps (L @ [x]) (Suc k) None (Some m0)"
      using gco_second_step[OF Suc.prems(4) k(1)] 1 by (simp add: x_def Let_def)
    have s2: "set (L @ [x]) \<subseteq> {..<length ps}" using Suc.prems(4) nth_mem[OF k(1)] by (auto simp: x_def)
    have "vel_at ps ((L @ [x]) ! j) < m0" using Suc.prems(2,3) by (simp add: nth_append)
    then have IH: "gco_second ps (L @ [x]) (Suc k) None (Some m0) =
      Some (Inr (filter (\<lambda>y. vel_at ps y = Min (vel_at ps ` set (drop (Suc k) (L @ [x])))) (drop (Suc k) (L @ [x]))))"
      using Suc.hyps(1)[of "Suc k" "L @ [x]"] Suc.hyps(2) Suc.prems(2) k s2 by simp
    have dd: "drop (Suc k) (L @ [x]) = drop (Suc k) L @ [x]" using k by simp
    have se: "set (drop (Suc k) (L @ [x])) = set (drop k L)" using dd by (auto simp: dr)
    have "L ! j \<in> set (drop k L)" using jin dr by simp
    then have "Min (vel_at ps ` set (drop k L)) \<le> vel_at ps (L ! j)" by (intro Min_le) auto
    then have "vel_at ps x \<noteq> Min (vel_at ps ` set (drop k L))" using 1 Suc.prems(3) by linarith
    then show ?thesis using st IH se dd by (simp add: dr)
  next
    case 2
    have "gco_second ps L k None (Some m0) = gco_second ps L (Suc k) (Some [x]) (Some (vel_at ps x))"
      using gco_second_step[OF Suc.prems(4) k(1)] 2 by (simp add: x_def Let_def)
    also have "\<dots> = Some (Inr (filter (\<lambda>y. vel_at ps y = Min (vel_at ps ` set (drop k L))) (drop k L)))"
      using gco_second_rebound[OF Suc.prems(4), of "Suc k" "[x]" "vel_at ps x"]
      by (auto simp: dr Let_def)
    finally show ?thesis .
  next
    case 3
    have st: "gco_second ps L k None (Some m0) = gco_second ps L (Suc k) None (Some m0)"
      using gco_second_step[OF Suc.prems(4) k(1)] 3 by (simp add: x_def Let_def)
    have ne: "vel_at ps ` set (drop (Suc k) L) \<noteq> {}" using jin by auto
    have "Min (vel_at ps ` set (drop k L)) = min (vel_at ps x) ?M" using ne by (simp add: dr)
    also have "\<dots> = ?M" using M 3 Suc.prems(3) by simp
    finally have "Min (vel_at ps ` set (drop k L)) = ?M" .
    moreover have "vel_at ps x \<noteq> ?M" using M 3 Suc.prems(3) by linarith
    ultimately show ?thesis using st Suc.hyps(1)[of "Suc k" L] Suc.hyps(2) Suc.prems k by (simp add: dr)
  qed
qed

lemma gco_second_aliased_greater:
  assumes "set L \<subseteq> {..<length ps}"
  shows "\<forall>x \<in> set (drop k L). m0 < vel_at ps x \<Longrightarrow> gco_second ps L k None (Some m0) = Some (Inr L)"
proof (induction "length L - k" arbitrary: k)
  case 0
  then show ?case by (simp add: gco_second_done)
next
  case (Suc n)
  then have k: "k < length L" by simp
  have dr: "drop k L = L ! k # drop (Suc k) L" using k by (simp add: Cons_nth_drop_Suc)
  have "m0 < vel_at ps (L ! k)" using Suc.prems dr by simp
  then have "gco_second ps L k None (Some m0) = gco_second ps L (Suc k) None (Some m0)"
    using gco_second_step[OF assms k] by (simp add: Let_def)
  then show ?case using Suc.hyps(1)[of "Suc k"] Suc.hyps(2) Suc.prems dr by simp
qed

lemma gco_second_aliased_loops:
  assumes "set L \<subseteq> {..<length ps}" "\<forall>x \<in> set (drop k L). m0 \<le> vel_at ps x"
    "\<exists>x \<in> set (drop k L). vel_at ps x = m0"
  shows "gco_second ps L k None (Some m0) = None"
proof (rule ccontr)
  assume "gco_second ps L k None (Some m0) \<noteq> None"
  then obtain r where run: "gco_second ps L k None (Some m0) = Some r" by blast
  have "ps = ps \<longrightarrow> None = (None :: nat list option) \<longrightarrow> Some m0 = Some m0 \<longrightarrow>
    set L \<subseteq> {..<length ps} \<and> (\<forall>x \<in> set (drop k L). m0 \<le> vel_at ps x) \<and> (\<exists>x \<in> set (drop k L). vel_at ps x = m0) \<longrightarrow> False"
    apply (rule gco_second.raw_induct[where P = "\<lambda>ps' L k C mm r. ps' = ps \<longrightarrow> C = None \<longrightarrow> mm = Some m0 \<longrightarrow>
        set L \<subseteq> {..<length ps} \<and> (\<forall>x \<in> set (drop k L). m0 \<le> vel_at ps x) \<and>
        (\<exists>x \<in> set (drop k L). vel_at ps x = m0) \<longrightarrow> False", OF _ run])
    subgoal premises prems for f ps' L k C mm r
    proof (intro impI)
      assume h: "ps' = ps" "C = None" "mm = Some m0" and
        inv: "set L \<subseteq> {..<length ps} \<and> (\<forall>x \<in> set (drop k L). m0 \<le> vel_at ps x) \<and> (\<exists>x \<in> set (drop k L). vel_at ps x = m0)"
      have k: "k < length L" using inv by (cases "k < length L") auto
      define x where "x = L ! k"
      have dr: "drop k L = x # drop (Suc k) L" using k by (simp add: x_def Cons_nth_drop_Suc)
      have xl: "x < length ps" using inv nth_mem[OF k] by (auto simp: x_def)
      have ge: "m0 \<le> vel_at ps x" using inv dr by simp
      show False
      proof (cases "vel_at ps x = m0")
        case True
        then have "f ps (L @ [x]) (Suc k) None (Some m0) = Some r"
          using h k xl prems(2) by (simp add: x_def Let_def)
        moreover have "drop (Suc k) (L @ [x]) = drop (Suc k) L @ [x]" using k by simp
        ultimately show False using prems(1)[of ps "L @ [x]" "Suc k" None "Some m0" r] inv dr xl True by auto
      next
        case False
        then have "f ps L (Suc k) None (Some m0) = Some r"
          using h k xl ge prems(2) by (simp add: x_def Let_def)
        moreover have "\<exists>y \<in> set (drop (Suc k) L). vel_at ps y = m0" using inv dr False by auto
        ultimately show False using prems(1)[of ps L "Suc k" None "Some m0" r] inv dr by auto
      qed
    qed
    done
  then show False using assms by simp
qed

lemma gco_second_eq:
  assumes "set L \<subseteq> {..<length ps}"
  shows "gco_second ps L 0 None None =
    (if L = [] then Some (Inr [])
     else if \<exists>x \<in> set (tl L). vel_at ps x < vel_at ps (hd L)
       then Some (Inr (filter (\<lambda>x. vel_at ps x = Min (vel_at ps ` set L)) L))
     else if \<exists>x \<in> set (tl L). vel_at ps x = vel_at ps (hd L) then None
     else Some (Inr L))"
proof (cases L)
  case Nil
  then show ?thesis by (simp add: gco_second_done)
next
  case (Cons h t)
  have hl: "h < length ps" using assms Cons by simp
  have start: "gco_second ps L 0 None None = gco_second ps L 1 None (Some (vel_at ps h))"
    using hl Cons by (subst gco_second.simps) simp
  have d1: "drop 1 L = t" using Cons by simp
  show ?thesis
  proof (cases "\<exists>x \<in> set t. vel_at ps x < vel_at ps h")
    case True
    then obtain j where j: "j < length t" "vel_at ps (t ! j) < vel_at ps h" by (auto simp: in_set_conv_nth)
    have r: "gco_second ps L 1 None (Some (vel_at ps h)) =
      Some (Inr (filter (\<lambda>x. vel_at ps x = Min (vel_at ps ` set t)) t))"
      using gco_second_aliased_smaller[OF assms, of 1 "Suc j" "vel_at ps h"] j Cons d1 by simp
    have "t ! j \<in> set t" using j(1) by simp
    then have "Min (vel_at ps ` set t) \<le> vel_at ps (t ! j)" by (intro Min_le) auto
    then have m: "Min (vel_at ps ` set t) < vel_at ps h" using j(2) by linarith
    have "vel_at ps ` set t \<noteq> {}" using j(1) by auto
    then have mt: "Min (vel_at ps ` set L) = Min (vel_at ps ` set t)" using m Cons by simp
    show ?thesis using True Cons start m r mt by simp
  next
    case False
    then have ge: "\<forall>x \<in> set t. vel_at ps h \<le> vel_at ps x" by (auto simp: not_less)
    show ?thesis
    proof (cases "\<exists>x \<in> set t. vel_at ps x = vel_at ps h")
      case True
      then show ?thesis using gco_second_aliased_loops[OF assms, of 1 "vel_at ps h"] ge False start Cons d1 by simp
    next
      case nt: False
      then have "\<forall>x \<in> set t. vel_at ps h < vel_at ps x" using ge by force
      then show ?thesis using gco_second_aliased_greater[OF assms, of 1 "vel_at ps h"] False nt start Cons d1 by simp
    qed
  qed
qed

lemma gco_first_indices:
  "map fst (filter (\<lambda>(j, x). P x) (enumerate n xs)) = filter (\<lambda>j. P (xs ! (j - n))) [n..<n + length xs]"
proof (induction xs arbitrary: n)
  case (Cons x xs)
  have "filter (\<lambda>j. P ((x # xs) ! (j - n))) [Suc n..<Suc n + length xs] =
        filter (\<lambda>j. P (xs ! (j - Suc n))) [Suc n..<Suc n + length xs]"
  proof (rule filter_cong[OF refl])
    fix j assume "j \<in> set [Suc n..<Suc n + length xs]"
    then have "Suc n \<le> j" by (simp del: upt_Suc)
    then have "j - n = Suc (j - Suc n)" by arith
    then show "P ((x # xs) ! (j - n)) = P (xs ! (j - Suc n))" by simp
  qed
  moreover have "[n..<n + length (x # xs)] = n # [Suc n..<Suc n + length xs]"
    using upt_conv_Cons[of n "n + Suc (length xs)"] by (simp del: upt_Suc)
  ultimately show ?case using Cons.IH[of "Suc n"] by simp
qed simp

text \<open>C28 (functional behaviour of \<open>get_closest_to_origin\<close>, both loops and the case
  in which it does not return): \<open>cs\<close> lists the particles of least absolute
  acceleration except the first one met (index 0 is never recorded). If a later
  element of \<open>cs\<close> has a smaller absolute velocity than its head, the result is
  the elements of least velocity; if none is smaller but one equals the head's, the
  loop appends to the list it iterates forever (\<open>None\<close>); otherwise \<open>cs\<close> is
  returned unfiltered.\<close>

theorem get_closest_to_origin_eq:
  "get_closest_to_origin ps =
    (let cs = filter (\<lambda>i. acc_at ps i = Min (abs_acceleration ` set ps)) [1..<length ps] in
     if cs = [] then Some (Inr [])
     else if \<exists>x \<in> set (tl cs). vel_at ps x < vel_at ps (hd cs)
       then Some (Inr (filter (\<lambda>x. vel_at ps x = Min (vel_at ps ` set cs)) cs))
     else if \<exists>x \<in> set (tl cs). vel_at ps x = vel_at ps (hd cs) then None
     else Some (Inr cs))"
proof (cases ps)
  case Nil
  then show ?thesis by (simp add: get_closest_to_origin_def gco_second_done)
next
  case (Cons p0 rest)
  let ?M = "Min (abs_acceleration ` set ps)"
  have M: "Min (insert (abs_acceleration p0) (abs_acceleration ` set rest)) = ?M" using Cons by simp
  have "snd (gco_first ps 0 None []) = map fst (filter (\<lambda>(j, pt). abs_acceleration pt = ?M) (enumerate 1 rest))"
    using Cons M by (simp add: gco_first_eq Let_def)
  also have "\<dots> = filter (\<lambda>i. acc_at ps i = ?M) [1..<length ps]"
    unfolding gco_first_indices using Cons by (auto intro!: filter_cong simp del: upt_Suc simp: nth_Cons')
  finally have cs: "snd (gco_first ps 0 None []) = filter (\<lambda>i. acc_at ps i = ?M) [1..<length ps]" .
  obtain mm cs0 where g: "gco_first ps 0 None [] = (mm, cs0)" by (cases "gco_first ps 0 None []")
  have "set cs0 \<subseteq> {..<length ps}" using cs g by auto
  then show ?thesis using gco_second_eq[of cs0 ps] cs g unfolding get_closest_to_origin_def by (simp add: Let_def)
qed

subsection \<open>Part 2\<close>

lemma add_times_distinct: "distinct (map fst d) \<Longrightarrow> distinct (map fst (add_times d pr ts))"
  by (induction d pr ts rule: add_times.induct) (simp_all add: Let_def distinct_d_set distinct_d_setdefault)

lemma add_times_get:
  "d_get (add_times d pr ts) t {} = (if t \<in> set ts then insert pr (d_get d t {}) else d_get d t {}) \<and>
   fst ` set (add_times d pr ts) = fst ` set d \<union> set ts"
proof (induction ts arbitrary: d)
  case (Cons t' ts)
  let ?d1 = "d_setdefault d t' {}"
  have g: "d_get (d_set ?d1 t' (insert pr (d_get ?d1 t' {}))) t {} =
    (if t = t' then insert pr (d_get d t {}) else d_get d t {})"
    by (simp add: d_get_def map_of_d_set map_of_d_setdefault split: option.split)
  show ?case using Cons.IH[of "d_set ?d1 t' (insert pr (d_get ?d1 t' {}))"] g
    by (auto simp: Let_def keys_d_set keys_d_setdefault)
qed simp

lemma pairs_loop_get:
  assumes "\<forall>(i, j) \<in> set prs. \<exists>ts. ix (ps ! i) (ps ! j) = Inr ts \<and> set ts = C i j" "distinct (map fst d)"
  shows "\<exists>d'. pairs_loop ix ps d prs = Inr d' \<and> (\<forall>t. d_get d' t {} = d_get d t {} \<union> {(i, j) \<in> set prs. t \<in> C i j}) \<and>
    fst ` set d' = fst ` set d \<union> (\<Union>(i, j) \<in> set prs. C i j) \<and> distinct (map fst d')"
  using assms
proof (induction prs arbitrary: d)
  case (Cons pr prs)
  obtain i j where pr: "pr = (i, j)" by (cases pr)
  obtain ts where ts: "ix (ps ! i) (ps ! j) = Inr ts" "set ts = C i j" using Cons.prems pr by auto
  obtain d' where d': "pairs_loop ix ps (add_times d (i, j) ts) prs = Inr d'"
    "\<forall>t. d_get d' t {} = d_get (add_times d (i, j) ts) t {} \<union> {(i, j) \<in> set prs. t \<in> C i j}"
    "fst ` set d' = fst ` set (add_times d (i, j) ts) \<union> (\<Union>(i, j) \<in> set prs. C i j)" "distinct (map fst d')"
    using Cons.IH[of "add_times d (i, j) ts"] Cons.prems add_times_distinct by auto
  have "\<forall>t. d_get d' t {} = d_get d t {} \<union> {(a, b) \<in> set (pr # prs). t \<in> C a b}"
    using d'(2) add_times_get[of d "(i, j)" ts] ts(2) pr by auto
  moreover have "fst ` set d' = fst ` set d \<union> (\<Union>(a, b) \<in> set (pr # prs). C a b)"
    using d'(3) add_times_get[of d "(i, j)" ts] ts(2) pr by auto
  ultimately show ?case using d'(1,4) ts(1) pr by simp
qed simp

lemma fold_collisions:
  "fold (\<lambda>(i, j) c. if i \<in> S \<and> j \<in> S then c \<union> {i, j} else c) xs c0 =
   c0 \<union> {x. \<exists>(i, j) \<in> set xs. i \<in> S \<and> j \<in> S \<and> (x = i \<or> x = j)}"
  by (induction xs arbitrary: c0) (auto split: if_splits)

lemma collisions_eq:
  "finite P \<Longrightarrow> collisions S P = {x. \<exists>(i, j) \<in> P. i \<in> S \<and> j \<in> S \<and> (x = i \<or> x = j)}"
  by (simp add: collisions_def fold_collisions)

lemma collide_sym: "collide p q t = collide q p t"
  by (auto simp: collide_def)

lemma set_particle_pairs: "set (particle_pairs n) = {(i, j). i < j \<and> j < n}"
proof (intro equalityI subsetI)
  fix p assume "p \<in> set (particle_pairs n)"
  then show "p \<in> {(i, j). i < j \<and> j < n}" by (auto simp: particle_pairs_def)
next
  fix p assume "p \<in> {(i, j). i < j \<and> j < n}"
  then obtain a b where ab: "p = (a, b)" "a < b" "b < n" by auto
  then have "a \<in> {0..<n - 1}" "(a, b) \<in> Pair a ` {Suc a..<n}" by auto
  then show "p \<in> set (particle_pairs n)" using ab(1) by (auto simp: particle_pairs_def)
qed

text \<open>One tick: when the dictionary holds at \<open>t\<close> exactly the pairs that collide then,
  the code removes exactly the survivors that meet another survivor.\<close>

lemma collide_step:
  assumes "S \<subseteq> {..<length ps}" "P = {(i, j). i < j \<and> j < length ps \<and> collide (ps ! i) (ps ! j) t}"
  shows "S - collisions S P = S - Set.filter (\<lambda>i. \<exists>j \<in> S. j \<noteq> i \<and> collide (ps ! i) (ps ! j) t) S"
proof -
  have "P \<subseteq> {..<length ps} \<times> {..<length ps}" using assms(2) by auto
  then have fin: "finite P" by (rule finite_subset) auto
  have "collisions S P \<inter> S = Set.filter (\<lambda>i. \<exists>j \<in> S. j \<noteq> i \<and> collide (ps ! i) (ps ! j) t) S"
  proof (intro equalityI subsetI)
    fix x assume "x \<in> collisions S P \<inter> S"
    then obtain i j where "i \<in> S" "j \<in> S" "x = i \<or> x = j" "i < j" "collide (ps ! i) (ps ! j) t" "x \<in> S"
      using collisions_eq[OF fin] assms(2) by auto
    then show "x \<in> Set.filter (\<lambda>i. \<exists>j \<in> S. j \<noteq> i \<and> collide (ps ! i) (ps ! j) t) S"
      using collide_sym by fastforce
  next
    fix x assume "x \<in> Set.filter (\<lambda>i. \<exists>j \<in> S. j \<noteq> i \<and> collide (ps ! i) (ps ! j) t) S"
    then obtain j where j: "x \<in> S" "j \<in> S" "j \<noteq> x" "collide (ps ! x) (ps ! j) t" by auto
    have "x < length ps" "j < length ps" using j assms(1) by auto
    then have mem: "(min x j, max x j) \<in> P" using j(3,4) assms(2) collide_sym by (auto simp: min_def max_def)
    have "x \<in> collisions S P" unfolding collisions_eq[OF fin]
      using j by (intro CollectI bexI[OF _ mem]) (auto simp: min_def max_def)
    then show "x \<in> collisions S P \<inter> S" using j by simp
  qed
  then show ?thesis by auto
qed

lemma time_loop_spec:
  "S \<subseteq> {..<length ps} \<Longrightarrow> \<forall>t. d_get d t {} = {(i, j). i < j \<and> j < length ps \<and> collide (ps ! i) (ps ! j) t} \<Longrightarrow>
   time_loop d S ts = spec_surv ps S ts"
proof (induction ts arbitrary: S)
  case (Cons t ts)
  have "S - collisions S (d_get d t {}) = S - Set.filter (\<lambda>i. \<exists>j \<in> S. j \<noteq> i \<and> collide (ps ! i) (ps ! j) t) S"
    using collide_step[OF Cons.prems(1) spec[OF Cons.prems(2), of t]] .
  note eq = this
  have sub: "S - collisions S (d_get d t {}) \<subseteq> {..<length ps}" using Cons.prems(1) by blast
  have "time_loop d S (t # ts) = time_loop d (S - collisions S (d_get d t {})) ts" by simp
  also have "\<dots> = spec_surv ps (S - collisions S (d_get d t {})) ts" using Cons.IH[OF sub Cons.prems(2)] .
  also have "\<dots> = spec_surv ps S (t # ts)" by (simp only: spec_surv.simps eq)
  finally show ?case .
qed simp

lemma spec_surv_skip:
  "S \<subseteq> {..<length ps} \<Longrightarrow>
   \<forall>t \<in> set ts. t \<notin> K \<longrightarrow> (\<forall>i j. i < j \<and> j < length ps \<longrightarrow> \<not> collide (ps ! i) (ps ! j) t) \<Longrightarrow>
   spec_surv ps S ts = spec_surv ps S (filter (\<lambda>t. t \<in> K) ts)"
proof (induction ts arbitrary: S)
  case (Cons t ts)
  show ?case
  proof (cases "t \<in> K")
    case True
    let ?S' = "S - Set.filter (\<lambda>i. \<exists>j \<in> S. j \<noteq> i \<and> collide (ps ! i) (ps ! j) t) S"
    have "?S' \<subseteq> {..<length ps}" using Cons.prems(1) by auto
    then have "spec_surv ps ?S' ts = spec_surv ps ?S' (filter (\<lambda>t. t \<in> K) ts)"
      using Cons.IH Cons.prems(2) by simp
    then show ?thesis using True by simp
  next
    case tK: False
    have "Set.filter (\<lambda>i. \<exists>j \<in> S. j \<noteq> i \<and> collide (ps ! i) (ps ! j) t) S = {}"
    proof (rule ccontr)
      assume "Set.filter (\<lambda>i. \<exists>j \<in> S. j \<noteq> i \<and> collide (ps ! i) (ps ! j) t) S \<noteq> {}"
      then obtain i j where ij: "i \<in> S" "j \<in> S" "j \<noteq> i" "collide (ps ! i) (ps ! j) t" by auto
      have l: "i < length ps" "j < length ps" using ij Cons.prems(1) by auto
      have no: "\<forall>a b. a < b \<and> b < length ps \<longrightarrow> \<not> collide (ps ! a) (ps ! b) t" using Cons.prems(2) tK by simp
      show False
      proof (cases "i < j")
        case True
        then show False using no l ij(4) by blast
      next
        case False
        then have "j < i" using ij(3) by simp
        then show False using no l ij(4) collide_sym[of "ps ! i" "ps ! j" t] by blast
      qed
    qed
    then have e: "S - Set.filter (\<lambda>i. \<exists>j \<in> S. j \<noteq> i \<and> collide (ps ! i) (ps ! j) t) S = S" by (simp only: Diff_empty)
    have "spec_surv ps S (t # ts) = spec_surv ps S ts" by (simp only: spec_surv.simps e)
    also have "\<dots> = spec_surv ps S (filter (\<lambda>t. t \<in> K) ts)" using Cons.IH Cons.prems by simp
    finally show ?thesis using tK by simp
  qed
qed simp

text \<open>C29 (refinement of the collision loop): given any pairwise method that
  returns, for \<open>i < j\<close>, exactly the times at which particles \<open>i\<close> and \<open>j\<close> meet,
  and a horizon \<open>T\<close> after which no two meet, the dictionary of
  \<open>get_particle_intersections\<close> and its loop over the sorted times compute the
  puzzle's survivors: the particles left when, tick by tick up to \<open>T\<close>, every
  particle meeting another survivor is removed.\<close>

theorem gpi_with_refines:
  assumes exact: "\<forall>i j. i < j \<and> j < length ps \<longrightarrow>
      (\<exists>ts. ix (ps ! i) (ps ! j) = Inr ts \<and> set ts = {t. collide (ps ! i) (ps ! j) t})"
    and horizon: "\<forall>i j t. i < j \<and> j < length ps \<and> collide (ps ! i) (ps ! j) t \<longrightarrow> t \<le> T"
  shows "gpi_with ix ps = Inr (spec_surv ps {0..<length ps} [0..T])"
proof -
  let ?C = "\<lambda>i j. {t. collide (ps ! i) (ps ! j) t}"
  have "\<forall>(i, j) \<in> set (particle_pairs (length ps)). \<exists>ts. ix (ps ! i) (ps ! j) = Inr ts \<and> set ts = ?C i j"
    using exact by (auto simp: set_particle_pairs)
  then obtain d where d: "pairs_loop ix ps [] (particle_pairs (length ps)) = Inr d"
    "\<forall>t. d_get d t {} = d_get [] t {} \<union> {(i, j) \<in> set (particle_pairs (length ps)). t \<in> ?C i j}"
    "fst ` set d = fst ` set [] \<union> (\<Union>(i, j) \<in> set (particle_pairs (length ps)). ?C i j)"
    "distinct (map fst d)"
    using pairs_loop_get[of "particle_pairs (length ps)" ix ps ?C "[]"] by auto
  define K where "K = {t. \<exists>i j. i < j \<and> j < length ps \<and> collide (ps ! i) (ps ! j) t}"
  have dg: "\<forall>t. d_get d t {} = {(i, j). i < j \<and> j < length ps \<and> collide (ps ! i) (ps ! j) t}"
    using d(2) by (auto simp: d_get_def set_particle_pairs)
  have keys: "set (map fst d) = K" using d(3) by (auto simp: set_particle_pairs K_def)
  have KT: "K \<subseteq> {0..T}" using horizon by (auto simp: K_def collide_def)
  have "sort (map fst d) = filter (\<lambda>t. t \<in> K) [0..T]"
  proof (rule sorted_distinct_set_unique)
    show "set (sort (map fst d)) = set (filter (\<lambda>t. t \<in> K) [0..T])" using keys KT by auto
  qed (use d(4) in \<open>simp_all add: sorted_wrt_filter sorted_upto\<close>)
  moreover have "spec_surv ps {0..<length ps} [0..T] = spec_surv ps {0..<length ps} (filter (\<lambda>t. t \<in> K) [0..T])"
    by (rule spec_surv_skip) (auto simp: K_def)
  moreover have "time_loop d {0..<length ps} (sort (map fst d)) = spec_surv ps {0..<length ps} (sort (map fst d))"
    by (rule time_loop_spec) (use dg in auto)
  ultimately show ?thesis using d(1) by (simp add: gpi_with_def)
qed

lemma dim_solns_same:
  assumes "position p1 ! k = position p2 ! k" "velocity p1 ! k = velocity p2 ! k"
    "acceleration p1 ! k = acceleration p2 ! k" "dim_solns p1 p2 k = Inr ts"
  shows "ts = []"
  using assms by (auto simp: dim_solns_def py_index_def Let_def split: if_splits)

lemma py_update_nat: "py_update xs (int i) v = Inr ys \<Longrightarrow> i < length xs \<and> ys = xs[i := v]"
  by (auto simp: py_update_def split: if_splits)

lemma isect_loop_keeps:
  "isect_loop p1 p2 ks pss = Inr pss' \<Longrightarrow>
   (k \<in> set ks \<longrightarrow> position p1 ! k = position p2 ! k \<and> velocity p1 ! k = velocity p2 ! k \<and>
      acceleration p1 ! k = acceleration p2 ! k) \<Longrightarrow>
   pss' ! k = pss ! k \<and> length pss' = length pss"
proof (induction ks arbitrary: pss)
  case (Cons i ks)
  obtain solns where sol: "dim_solns p1 p2 i = Inr solns" using Cons.prems(1) by (cases "dim_solns p1 p2 i") auto
  show ?case
  proof (cases "solns = []")
    case True
    then show ?thesis using Cons.prems(1) sol by simp
  next
    case False
    then have ik: "i \<noteq> k" using dim_solns_same[OF _ _ _ sol] Cons.prems(2) by auto
    obtain pss1 where u: "py_update pss (int i) (set solns) = Inr pss1" "isect_loop p1 p2 ks pss1 = Inr pss'"
      using Cons.prems(1) sol False by (auto split: sum.splits)
    have "pss1 ! k = pss ! k \<and> length pss1 = length pss" using py_update_nat[OF u(1)] ik by simp
    then show ?thesis using Cons.IH[OF u(2)] Cons.prems(2) by simp
  qed
qed simp

lemma fold_inter: "fold (\<lambda>s acc. acc \<inter> s) xs a = a \<inter> \<Inter>(set xs)"
  by (induction xs arbitrary: a) auto

text \<open>C30 (\<open>intersects\<close> on a shared axis): when two particles have the same
  position, velocity and acceleration on one of the three axes, the loop finds no
  root there, breaks, leaves that axis's set empty, and \<open>intersects\<close> returns no
  time at all, whatever the other axes do.\<close>

theorem intersects_shared_axis:
  assumes "intersects p1 p2 = Inr ts" "k < 3"
    "position p1 ! k = position p2 ! k" "velocity p1 ! k = velocity p2 ! k"
    "acceleration p1 ! k = acceleration p2 ! k"
  shows "ts = []"
proof -
  obtain pss where pss: "isect_loop p1 p2 [0..<ndims p1] [{}, {}, {}] = Inr pss"
    "ts = sorted_list_of_set (fold (\<lambda>s acc. acc \<inter> s) (tl pss) (hd pss))"
    using assms(1) by (auto simp: intersects_def split: sum.splits)
  have k: "pss ! k = {}" "length pss = 3"
    using isect_loop_keeps[OF pss(1), of k] assms(2-5) by (auto simp: nth_Cons')
  obtain s0 s1 s2 where p3: "pss = [s0, s1, s2]" using k(2)
    by (cases pss rule: list.exhaust; cases "tl pss" rule: list.exhaust; cases "tl (tl pss)" rule: list.exhaust) auto
  have "pss ! k \<in> set (tl pss) \<or> pss ! k = hd pss" using assms(2) p3 by (auto simp: less_Suc_eq numeral_3_eq_3)
  then have "fold (\<lambda>s acc. acc \<inter> s) (tl pss) (hd pss) = {}" using k(1) unfolding fold_inter by blast
  then show ?thesis using pss(2) by simp
qed

lemma isect_loop_total:
  "particle_ok p \<Longrightarrow> particle_ok q \<Longrightarrow> \<forall>i \<in> set ks. i < 3 \<Longrightarrow> length pss = 3 \<Longrightarrow>
   \<exists>pss'. isect_loop p q ks pss = Inr pss'"
proof (induction ks arbitrary: pss)
  case (Cons i ks)
  have "\<exists>solns. dim_solns p q i = Inr solns"
    using Cons.prems by (auto simp: dim_solns_def particle_ok_def py_index_def Let_def)
  then obtain solns where sol: "dim_solns p q i = Inr solns" by blast
  have "length (pss[i := set solns]) = 3" using Cons.prems(4) by simp
  then show ?case using Cons sol by (auto simp: py_update_def)
qed simp

lemma intersects_total: "particle_ok p \<Longrightarrow> particle_ok q \<Longrightarrow> \<exists>ts. intersects p q = Inr ts"
  using isect_loop_total[of p q "[0..<ndims p]" "[{}, {}, {}]"]
  by (auto simp: intersects_def particle_ok_def)

lemma pairs_loop_none: "\<forall>(i, j) \<in> set prs. ix (ps ! i) (ps ! j) = Inr [] \<Longrightarrow> pairs_loop ix ps d prs = Inr d"
  by (induction ix ps d prs rule: pairs_loop.induct) auto

text \<open>C31 (consequence for \<open>get_particle_intersections\<close>): on particles of three
  dimensions that all move alike along one axis, as in the puzzle's example (all on
  the \<open>x\<close> axis), every particle survives, although such particles may collide.\<close>

theorem coaxial_particles_all_survive:
  assumes "\<forall>p \<in> set ps. particle_ok p" "k < 3"
    and "\<forall>p \<in> set ps. \<forall>q \<in> set ps. position p ! k = position q ! k \<and> velocity p ! k = velocity q ! k \<and>
      acceleration p ! k = acceleration q ! k"
  shows "get_particle_intersections ps = Inr {0..<length ps}"
proof -
  have "intersects (ps ! i) (ps ! j) = Inr []" if "(i, j) \<in> set (particle_pairs (length ps))" for i j
  proof -
    have ij: "i < length ps" "j < length ps" using that by (auto simp: set_particle_pairs)
    obtain ts where ts: "intersects (ps ! i) (ps ! j) = Inr ts"
      using intersects_total assms(1) ij by (meson nth_mem)
    have "ts = []" using intersects_shared_axis[OF ts assms(2)] assms(3) ij by (meson nth_mem)
    then show ?thesis using ts by simp
  qed
  then have "pairs_loop intersects ps [] (particle_pairs (length ps)) = Inr []"
    by (intro pairs_loop_none) auto
  then show ?thesis by (simp add: get_particle_intersections_def gpi_with_def)
qed

lemma ix_upto_exact:
  "\<forall>t. collide p q t \<longrightarrow> t \<le> T \<Longrightarrow> \<exists>ts. ix_upto T p q = Inr ts \<and> set ts = {t. collide p q t}"
  by (auto simp: ix_upto_def collide_def)

end
