(* ===== verification/Spec2Isabelle.thy ===== *)
theory Spec2Isabelle
  imports Duet_Sound Duet_Pair Maze Registers Disk Firewall Virus Dance Passphrase HexGrid Checksum Spiral Tubes Tower Particles
begin

text \<open>
  \<^bold>\<open>Advent of Code 2017 solutions (ieaves/advent-of-code-2017): a verification
  development.\<close>

  \<^bold>\<open>The program.\<close> Each file \<open>src/code/dayN/*.py\<close> is an independent solution: it
  reads a puzzle input, runs a small simulation and prints two answers. No file
  calls another; day 14 carries its own copy of day 10's knot hash. The core,
  the one part with state machines and interaction, is day 18 ("Duet",
  \<open>src/code/day18/day18.py\<close>): a decoder of instruction lines, a sequential sound
  interpreter, and two interpreters run in alternation that exchange values
  through queues and stop on mutual deadlock.

  \<^bold>\<open>How the development is built.\<close> One theory per solution, each importing
  the prelude (and, for day 18, the theories it builds on); this root imports them
  all and holds the examples, the witnesses and the header.
  \<^item> \<open>Prelude\<close>: Python's exceptions as the datatype \<open>py_error\<close>, results as
    \<open>py_error + 'a\<close> (\<open>Inl\<close> is the raised exception), and the Python primitives
    the solutions share: indexing with negative indices (\<open>py_index\<close>,
    \<open>py_update\<close>), slices, \<open>d[k]\<close>, \<open>setdefault\<close> and \<open>get\<close> on maps and on
    insertion-ordered dictionaries (\<open>d_lookup\<close>, \<open>d_setdefault\<close>, \<open>d_set\<close>),
    \<open>max\<close>, \<open>%\<close>, \<open>str.split\<close>, \<open>str.strip\<close> and \<open>int(str)\<close>. The extra value
    \<open>Unmodelled\<close> of \<open>py_error\<close> marks the one place where the model leaves the
    outcome open (below).
  \<^item> Day 18, "Duet" (\<open>day18.py\<close>), the core of the specification:
    \<open>Duet_Instr\<close> is \<open>process_instructions\<close> (lines 247--261), an instruction
    \<open>Instr opcode operand (operand option)\<close> with the opcode kept as a string and
    registers holding \<open>pyval\<close> (a Python integer or \<open>None\<close>);
    \<open>Duet_Sound\<close> is class \<open>music_player\<close> (lines 77--146), its loop
    \<open>music_loop\<close> a \<open>partial_function (option)\<close> whose \<open>None\<close> is a run that
    never returns; \<open>Duet_Player\<close> is class \<open>player\<close> (lines 149--225) with
    \<open>play_instruction\<close>; \<open>Duet_Pair\<close> is class \<open>duet_player\<close> (lines
    228--244): a round (\<open>duet_round\<close>) steps player 0, delivers its value to
    player 1, steps player 1 and delivers back, \<open>duet_run\<close> is the \<open>while\<close>
    loop, \<open>duet_reach\<close> the states it passes through and \<open>duet_hist\<close> the same
    run with a ghost log of the values each player sent.
  \<^item> \<open>Maze\<close> (day 5): class \<open>maze\<close>, \<open>step\<close> with the two offset rules,
    \<open>escape_time\<close> and its loop.
  \<^item> \<open>Registers\<close> (day 8): \<open>line_reader\<close>, \<open>evaluate_instructions\<close> over a
    \<open>setdefault\<close> dictionary, and the \<open>eval\<close> of \<open>True if a <token> b else
    False\<close> as \<open>eval_conditional\<close>: a token of letters, digits and \<open>_\<close> (other
    than \<open>and\<close>, \<open>or\<close>, \<open>is\<close>, \<open>in\<close>) is a \<open>SyntaxError\<close>, a binary operator
    followed by unary \<open>+ - ~\<close> has Python's integer meaning with its exceptions
    (\<open>ZeroDivisionError\<close>, \<open>ValueError\<close> for a negative shift, \<open>TypeError\<close>
    for \<open>in\<close> and \<open>@\<close>, \<open>OverflowError\<close> for \<open>/\<close>), and any other token, as
    well as the underflow of a negative power near \<open>2^-1074\<close> and the identity
    of large integers under \<open>is\<close>, is \<open>Unmodelled\<close>: the model does not decide
    them. \<open>spec_regs\<close> is the puzzle's registers-start-at-0 semantics.
  \<^item> \<open>KnotHash\<close> (day 10) and \<open>Disk\<close> (day 14, with its own copy of the hash,
    the bit grid and the recursive flood fill \<open>propagate_adjacency\<close>).
  \<^item> \<open>Firewall\<close> (day 13): classes \<open>firewall_layer\<close>, \<open>firewall\<close>, \<open>packet\<close>,
    the three \<open>while\<close> loops (\<open>advance_through_firewall\<close>, \<open>fsw_inner\<close>,
    \<open>fsw_loop\<close>) and \<open>get_wait_time\<close>; \<open>caught\<close> and \<open>spec_severity\<close> are the
    puzzle's meaning.
  \<^item> \<open>Virus\<close> (day 22), \<open>Dance\<close> (day 16), \<open>Passphrase\<close> (day 4),
    \<open>HexGrid\<close> (day 11), \<open>Checksum\<close> (day 2), \<open>Spiral\<close> (day 3, both files),
    \<open>Tubes\<close> (day 19), \<open>Tower\<close> (day 7) and \<open>Particles\<close> (day 20): each the
    classes of its file as records, every method and loop, and the puzzle's
    meaning where a property refines it. Each theory opens with what it holds.

  \<^bold>\<open>What is proved.\<close> For the pair runner of day 18: the answer is the number
  of values player 1 sent and the queues lose, duplicate and reorder nothing
  (\<open>duet_play_counts_sends\<close>, \<open>duet_hist_conservation\<close>); a player is finished
  exactly when its counter is outside the program; a \<open>rcv\<close> on an empty queue
  waits in place and completes after a delivery; player 1's \<open>deadlocked\<close> flag is
  never stale. The sound variant returns on every program without \<open>jgz\<close>. The
  maze loop ends on every non-negative maze and \<open>escape_time\<close> restores the
  offsets. The register machine computes the puzzle's answers, refines
  \<open>spec_regs\<close>, and raises \<open>SyntaxError\<close> at the first instruction with a
  name as its condition. The knot hash refines the puzzle's rounds except for a
  length equal to the circle, and the dense hash is always 32 hex digits that read
  back as the bytes; day 14's copy equals it and the region counter always
  returns. The trip severity refines \<open>spec_severity\<close>; \<open>get_wait_time\<close> and
  \<open>find_shortest_wait\<close> return the least safe delay whenever one exists, the
  second ignoring layer 0. Day 7's \<open>tower\<close> finds the bottom program and its
  weights on every well-formed input whose first line stands on a disc, and raises
  \<open>UnboundLocalError\<close> when the first line is the bottom program. The walk of day
  19 never raises. Every burst of the virus is a burst of the puzzle's carrier and
  no loaded map makes it raise. \<open>repeated_dance\<close> is right when it sees the cycle.
  Day 20's part 1 is characterised on every input, the case in which it loops
  forever included; the collision loop of part 2 computes the puzzle's survivors
  for any exact pairwise method, while the code's \<open>intersects\<close> finds no time for
  particles that agree on one axis. Examples of the puzzle statements evaluate in
  the kernel and document the divergences from the puzzle text.

  \<^bold>\<open>Loops and fuel.\<close> Loops that may run forever are
  \<open>partial_function (option)\<close>: statements that they return are proved as
  \<open>\<exists>r. \<dots> = Some r\<close>, by a measure: the remaining program for \<open>jgz\<close>-free
  sound programs, the offsets left for the maze, the number of unlabelled used
  cells for the flood fill, the distance to a safe delay for \<open>get_wait_time\<close> and
  \<open>find_shortest_wait\<close>, the depth left for the packet, the rank of the programs
  for day 7. A non-termination (day 20's aliased loop) is proved as \<open>= None\<close>. No
  fuel is used. Concrete runs are evaluated by \<open>simp\<close> on the equations or by
  \<open>code_simp\<close>; the 64-round dense hash of a real key is out of reach of the
  kernel's evaluation and is covered by the universal theorems instead.

  \<^bold>\<open>Not modelled.\<close> Reading input files and printing are I/O: the models take
  the lines as strings. Day 21 is Python 2 (\<open>xrange\<close>) and does not run under
  the Python 3 the other files need. Resource limits are not modelled: CPython's
  recursion limit (about 1000 frames) bounds the recursions of day 14's
  \<open>propagate_adjacency\<close> and day 7's \<open>check_total_weight\<close>, which the models
  let run to any depth, and memory bounds the huge integers of \<open><<\<close> and
  \<open>**\<close> in day 8. Day 20's floats are real numbers, and day 3's float square
  root is the integer square root (exact below \<open>2^52\<close>). The spec treats all days but 18 as out of
  scope; they are modelled from their source.
\<close>

section \<open>The examples of the Duet puzzle\<close>

definition sound_example_lines :: "string list" where
  "sound_example_lines = [''set a 1'', ''add a 2'', ''mul a a'', ''mod a 5'', ''snd a'',
      ''set a 0'', ''rcv a'', ''jgz a -1'', ''set a 1'', ''jgz a -2'']"

definition duet_example_lines :: "string list" where
  "duet_example_lines = [''snd 1'', ''snd 2'', ''snd p'', ''rcv a'', ''rcv b'', ''rcv c'', ''rcv d'']"

definition duet_example_prog :: "instr list" where
  "duet_example_prog = [Instr ''snd'' (Imm 1) None, Instr ''snd'' (Imm 2) None,
     Instr ''snd'' (Reg CHR ''p'') None, Instr ''rcv'' (Reg CHR ''a'') None,
     Instr ''rcv'' (Reg CHR ''b'') None, Instr ''rcv'' (Reg CHR ''c'') None,
     Instr ''rcv'' (Reg CHR ''d'') None]"

section \<open>The example of the register puzzle\<close>

definition reg_example_lines :: "string list" where
  "reg_example_lines = [''b inc 5 if a > 1'', ''a inc 1 if b < 5'', ''c dec -10 if a >= 1'',
    ''c inc -20 if c == 10'']"

section \<open>The example of the firewall puzzle\<close>

definition fw_example_params :: "(int \<times> int) list" where
  "fw_example_params = [(0, 3), (1, 2), (4, 4), (6, 4)]"

section \<open>The example of the virus puzzle\<close>

definition virus_test_lines :: "string list" where
  "virus_test_lines = [''..#'', ''#..'', ''...'']"

section \<open>The example of the dance puzzle\<close>

definition dance_example_moves :: "string list" where
  "dance_example_moves = input_loader [''s1,x3/4,pe/b'']"

section \<open>The example of the tube puzzle\<close>

definition tubes_example_lines :: "string list" where
  "tubes_example_lines = [''     |          '', ''     |  +--+    '', ''     A  |  C    '',
     '' F---|----E|--+ '', ''     |  |  |  D '', ''     +B-+  +--+ '']"

section \<open>The example of the tower puzzle\<close>

definition tower_example_lines :: "string list" where
  "tower_example_lines = [''pbga (66)'', ''xhth (57)'', ''ebii (61)'', ''havc (66)'', ''ktlj (57)'',
    ''fwft (72) -> ktlj, cntj, xhth'', ''qoyq (66)'', ''padx (45) -> pbga, havc, qoyq'',
    ''tknk (41) -> ugml, padx, fwft'', ''jptl (61)'', ''ugml (68) -> gyxo, ebii, jptl'', ''gyxo (61)'', ''cntj (57)'']"

text \<open>The same lines as (name, weight, names above), and a ranking of its programs
  under which every program ranks above those on its disc.\<close>

definition tower_example_xs :: "(string \<times> int \<times> string list) list" where
  "tower_example_xs = [(''pbga'', 66, []), (''xhth'', 57, []), (''ebii'', 61, []), (''havc'', 66, []),
    (''ktlj'', 57, []), (''fwft'', 72, [''ktlj'', ''cntj'', ''xhth'']), (''qoyq'', 66, []),
    (''padx'', 45, [''pbga'', ''havc'', ''qoyq'']), (''tknk'', 41, [''ugml'', ''padx'', ''fwft'']),
    (''jptl'', 61, []), (''ugml'', 68, [''gyxo'', ''ebii'', ''jptl'']), (''gyxo'', 61, []), (''cntj'', 57, [])]"

definition tower_example_rank :: "string \<Rightarrow> nat" where
  "tower_example_rank n = (if n = ''tknk'' then 2 else if n \<in> set [''ugml'', ''padx'', ''fwft''] then 1 else 0)"

section \<open>The examples of the particle puzzle\<close>

definition particle_example1 :: "particle list" where
  "particle_example1 = [particle_init [3, 0, 0] [2, 0, 0] [-1, 0, 0], particle_init [4, 0, 0] [0, 0, 0] [-2, 0, 0]]"

definition particle_example2 :: "particle list" where
  "particle_example2 = [particle_init [-6, 0, 0] [3, 0, 0] [0, 0, 0], particle_init [-4, 0, 0] [2, 0, 0] [0, 0, 0],
     particle_init [-2, 0, 0] [1, 0, 0] [0, 0, 0], particle_init [3, 0, 0] [-1, 0, 0] [0, 0, 0]]"

section \<open>Properties spanning the decoder and the interpreters\<close>

text \<open>The puzzle's pair example decodes, program 1 sends 3 values, and the run
  ends in mutual deadlock: both players wait at a \<open>rcv\<close> on an empty queue and
  neither has left the program.\<close>

theorem duet_example_deadlock:
  "process_instructions duet_example_lines = Inr duet_example_prog \<and>
   (\<exists>d. duet_run duet_example_prog duet_init = Some (Inr d) \<and> counter d = 3 \<and>
     deadlocked (pl0 d) \<and> deadlocked (pl1 d) \<and> inbox (pl0 d) = [] \<and> inbox (pl1 d) = [] \<and>
     \<not> finished (pl0 d) \<and> \<not> finished (pl1 d))"
  by (simp add: duet_example_lines_def duet_example_prog_def parse_eval duet_eval duet_run.simps)

text \<open>The stopping test reads a stale flag: in this program player 0 fails a
  \<open>rcv\<close>, player 1 then sends it a value and leaves the program, and the loop stops
  with the value still queued for player 0.\<close>

theorem duet_stale_deadlock:
  "\<exists>prog. process_instructions [''jgz p 2'', ''rcv a'', ''snd 1''] = Inr prog \<and>
   (\<exists>d. duet_run prog duet_init = Some (Inr d) \<and> counter d = 1 \<and> all_done d \<and>
     deadlocked (pl0 d) \<and> inbox (pl0 d) = [PInt 1] \<and> finished (pl1 d))"
  by (simp add: parse_eval duet_eval duet_run.simps)

text \<open>A \<open>mod\<close> by zero aborts the pair run with \<open>ZeroDivisionError\<close>.\<close>

theorem duet_mod_zero:
  "\<exists>prog. process_instructions [''set a 7'', ''mod a 0''] = Inr prog \<and>
    duet_play prog = Some (Inl ZeroDivisionError)"
  by (simp add: parse_eval duet_eval duet_run.simps)

text \<open>The puzzle's sound example decodes and recovers the frequency 4.\<close>

theorem music_example:
  "\<exists>prog. process_instructions sound_example_lines = Inr prog \<and>
    play_instructions prog = Some (Inr (PInt 4))"
  by (simp add: sound_example_lines_def parse_eval music_eval music_loop.simps)

text \<open>The sound variant's \<open>jgz\<close> jumps when its register is negative: here it
  skips the \<open>rcv\<close> that the puzzle's rule (\<open>X > 0\<close>) would execute, and the run
  ends with \<open>None\<close> instead of recovering \<open>-1\<close>.\<close>

theorem music_jgz_negative_jumps:
  "\<exists>prog. process_instructions [''set a -1'', ''snd a'', ''jgz a 2'', ''rcv a'', ''set a 0''] = Inr prog \<and>
    play_instructions prog = Some (Inr PNone)"
  by (simp add: parse_eval music_eval music_loop.simps)

text \<open>The sound variant's \<open>snd 5\<close> plays the content of a dictionary entry
  keyed by the integer 5, which \<open>setdefault\<close> made 0; the recovered 0 is falsy,
  so the loop runs on and returns 0 at the end of the program.\<close>

theorem music_snd_immediate_plays_zero:
  "\<exists>prog. process_instructions [''snd 5'', ''set a 1'', ''rcv a''] = Inr prog \<and>
    play_instructions prog = Some (Inr (PInt 0))"
  by (simp add: parse_eval music_eval music_loop.simps)

text \<open>A jump to \<open>-1\<close> does not end the sound variant: the negative index
  reads the last instruction, here a \<open>rcv\<close> that recovers 4.\<close>

theorem music_negative_pc_wraps:
  "\<exists>prog. process_instructions [''set a 4'', ''snd a'', ''jgz a -3'', ''rcv a''] = Inr prog \<and>
    play_instructions prog = Some (Inr (PInt 4))"
  by (simp add: parse_eval music_eval music_loop.simps)

text \<open>The decoder keeps any opcode string, so an unknown opcode is not a
  decoding error: it decodes, and the run fails at that instruction with
  \<open>UnboundLocalError\<close> (\<open>ret\<close> is never assigned).\<close>

theorem decoder_accepts_unknown_opcode:
  "process_instructions [''foo a 1''] = Inr [Instr ''foo'' (Reg CHR ''a'') (Some (Imm 1))] \<and>
   duet_play [Instr ''foo'' (Reg CHR ''a'') (Some (Imm 1))] = Some (Inl UnboundLocalError) \<and>
   play_instructions [Instr ''foo'' (Reg CHR ''a'') (Some (Imm 1))] = Some (Inl UnboundLocalError)"
  by (simp add: parse_eval duet_eval duet_run.simps music_eval music_loop.simps)

text \<open>Only the first operand gets a default; a register that is read as a
  value before it was ever written raises \<open>KeyError\<close> in both interpreters.\<close>

theorem unread_register_raises:
  "\<exists>prog. process_instructions [''set a b''] = Inr prog \<and>
    duet_play prog = Some (Inl KeyError) \<and> play_instructions prog = Some (Inl KeyError)"
  by (simp add: parse_eval duet_eval duet_run.simps music_eval music_loop.simps)

text \<open>Day 8: the puzzle's register example: the largest final value is 1 and the highest
  value held is 10 (\<open>c\<close> after the third instruction), as the file's asserts say.\<close>

theorem registers_example: "evaluate_lines reg_example_lines = Inr (1, 10)"
  by (simp add: reg_example_lines_def evaluate_lines_def reg_eval)

text \<open>The day 8 line reader never reads the fourth word nor anything after the seventh:
  a line that is not of the puzzle's form is accepted.\<close>

theorem reg_parse_ignores_if:
  "parse_reg_line ''b inc 5 unless a > 1 or c'' =
   Inr \<lparr>register = ''b'', action = Inc, action_amt = 5, cond_register = ''a'', condition = ''>'', cond_amt = 1\<rparr>"
  by (simp add: reg_eval)

text \<open>The generator interleaves parsing and running: the first line's bad condition
  raises before the second line's missing fields are seen.\<close>

theorem reg_lazy_error_order:
  "evaluate_lines [''a inc 1 if a <> 0'', ''b inc 1''] = Inl SyntaxError \<and>
   parse_reg_lines [''a inc 1 if a <> 0'', ''b inc 1''] = Inl IndexError"
  by (simp add: evaluate_lines_def reg_eval)

text \<open>Day 8: tokens other than the six comparisons are evaluated by \<open>eval\<close> with
  Python's meaning: \<open>+\<close> and \<open>-\<close> test a non-zero result, \<open>/ 0\<close> raises
  \<open>ZeroDivisionError\<close> and \<open>in\<close> a \<open>TypeError\<close>, where the puzzle knows only
  comparisons.\<close>

theorem reg_other_tokens:
  "evaluate_lines [''a inc 1 if b + 1'', ''c inc 1 if c - 0''] = Inr (1, 1) \<and>
   evaluate_lines [''a inc 1 if b / 0''] = Inl ZeroDivisionError \<and>
   evaluate_lines [''a inc 1 if b in 0''] = Inl TypeError"
  by (simp add: evaluate_lines_def reg_eval is_digit_def)

text \<open>The asserted example of day 10 passes, but not for the puzzle's reason: the
  last length, 5, equals the circle size and reverses nothing, so the circle ends as
  \<open>4 3 0 1 2\<close> where the puzzle's rounds give \<open>3 4 2 1 0\<close>; the first two
  elements multiply to 12 in both.\<close>

theorem knot_example:
  "circle_hash [3, 4, 1, 5] 5 = Inr [4, 3, 0, 1, 2] \<and> spec_hash [3, 4, 1, 5] 5 = [3, 4, 2, 1, 0]"
  by code_simp

text \<open>Day 14 on a small grid: three regions, the corner square touching the others
  only diagonally.\<close>

theorem region_counter_example: "region_counter [''110'', ''001'', ''101''] = Some (Inr 3)"
  by (simp add: disk_eval)

text \<open>The asserts of day 14 on \<open>convert_to_binary\<close>.\<close>

theorem convert_to_binary_asserts:
  "convert_to_binary CHR ''0'' 16 4 = Inr ''0000'' \<and> convert_to_binary CHR ''1'' 16 4 = Inr ''0001'' \<and>
   convert_to_binary CHR ''e'' 16 4 = Inr ''1110'' \<and> convert_to_binary CHR ''f'' 16 4 = Inr ''1111''"
  by code_simp

text \<open>Day 13: the test of \<open>__main__\<close> (severity 24) and the puzzle's delay of 10.\<close>

theorem firewall_example:
  "(\<exists>fw. firewall_init fw_example_params = Inr fw \<and> get_packet_trip_severity (packet_init fw 0) = Some (Inr 24)) \<and>
   get_wait_time fw_example_params = Some (Inr 10)"
  by (simp add: fw_example_params_def fw_eval)

text \<open>Day 13: \<open>find_shortest_wait\<close> ignores a detection at depth 0 (the test
  \<open>packet_depth_loc > 0\<close>): with one layer of range 2 at depth 0 it answers 0,
  although the scanner catches the packet leaving at time 0; \<open>get_wait_time\<close>
  answers 1.\<close>

theorem find_shortest_wait_skips_depth0:
  "(\<exists>fw. firewall_init [(0, 2)] = Inr fw \<and> find_shortest_wait (packet_init fw 0) = Some (Inr 0)) \<and>
   caught [(0, 2)] 0 \<and> get_wait_time [(0, 2)] = Some (Inr 1)"
  by (simp add: fw_eval caught_def scanner_top.simps)

text \<open>Day 13: a scanner of range 1 is never turned back by \<open>advance_scanner\<close>
  (\<open>scanner_location + 1 == range\<close> is tested after the move), so it walks off its
  layer and the trip through three range-1 layers scores 0, although such a
  scanner never leaves the top; \<open>get_wait_time\<close> divides by the cycle time 0 and
  raises.\<close>

theorem range_one_scanner_runs_off:
  "scanner_location ((advance_scanner ^^ 2) (set_range 1 layer_init)) = 2 \<and>
   (\<exists>fw. firewall_init [(0, 1), (1, 1), (2, 1)] = Inr fw \<and> get_packet_trip_severity (packet_init fw 0) = Some (Inr 0)) \<and>
   get_wait_time [(0, 1)] = Some (Inl ZeroDivisionError)"
  by (simp add: fw_eval numeral_2_eq_2)

text \<open>Day 22: the example grid is read as two infected nodes, and the puzzle's
  counts follow: 5 infections in 7 bursts and 41 in 70, and 26 in 100 bursts of
  the evolved virus (the assert of \<open>__main__\<close>).\<close>

theorem virus_example:
  "load_infection_states virus_test_lines = Inr [([1, 1], CHR ''I''), ([-1, 0], CHR ''I'')] \<and>
   map_sum id burst_infections (activity_burst 7 (sporifica_init [([1, 1], CHR ''I''), ([-1, 0], CHR ''I'')])) = Inr 5 \<and>
   map_sum id burst_infections (activity_burst 70 (sporifica_init [([1, 1], CHR ''I''), ([-1, 0], CHR ''I'')])) = Inr 41 \<and>
   map_sum id burst_infections (activity_burst 100 (super_init [([1, 1], CHR ''I''), ([-1, 0], CHR ''I'')])) = Inr 26"
proof -
  have "load_infection_states virus_test_lines = Inr [([1, 1], CHR ''I''), ([-1, 0], CHR ''I'')]"
    by (simp add: load_infection_states_def virus_test_lines_def hash_cells_def py_strip_def is_py_space_def)
  moreover have "map_sum id burst_infections (activity_burst 7 (sporifica_init [([1, 1], CHR ''I''), ([-1, 0], CHR ''I'')])) = Inr 5"
    by (simp add: virus_eval numeral_eq_Suc)
  moreover have "map_sum id burst_infections (activity_burst 70 (sporifica_init [([1, 1], CHR ''I''), ([-1, 0], CHR ''I'')])) = Inr 41"
    by code_simp
  moreover have "map_sum id burst_infections (activity_burst 100 (super_init [([1, 1], CHR ''I''), ([-1, 0], CHR ''I'')])) = Inr 26"
    by code_simp
  ultimately show ?thesis by blast
qed

text \<open>Day 16: on the puzzle's example the first dance gives \<open>baedc\<close>, but
  \<open>repeated_dance\<close> with two repetitions also answers \<open>baedc\<close>, where two dances
  give \<open>ceadb\<close>: the loop runs \<open>repetitions - 1\<close> dances when no state repeats.\<close>

theorem repeated_dance_one_short:
  "lets_dance ''abcde'' dance_example_moves = Inr ''baedc'' \<and>
   repeated_dance ''abcde'' dance_example_moves 2 = Inr ''baedc'' \<and>
   dance_pow 2 dance_example_moves ''abcde'' = Inr ''ceadb''"
  unfolding dance_example_moves_def by code_simp

text \<open>Day 4: the five asserts of \<open>__main__\<close>.\<close>

theorem passphrase_examples:
  "valid_phrase (split_ws ''abcde fghij'') \<and> \<not> valid_phrase (split_ws ''abcde xyz ecdab'') \<and>
   valid_phrase (split_ws ''a ab abc abd abf abj'') \<and> valid_phrase (split_ws ''iiii oiii ooii oooi oooo'') \<and>
   \<not> valid_phrase (split_ws ''oiii ioii iioi iiio'')"
  by code_simp

text \<open>Day 11: the two asserts of \<open>__main__\<close>, and the loader lower-cases.\<close>

theorem hex_examples:
  "distance_traversed [''ne'', ''ne'', ''ne''] = Inr 3 \<and> distance_traversed [''se'', ''sw'', ''se'', ''sw'', ''sw''] = Inr 3 \<and>
   input_loader11 [''NE,s,Sw''] = [''ne'', ''s'', ''sw'']"
proof -
  have "distance_traversed [''ne'', ''ne'', ''ne''] = Inr 3 \<and> distance_traversed [''se'', ''sw'', ''se'', ''sw'', ''sw''] = Inr 3"
    by (simp add: distance_traversed_def traverse_grid_def instructions_map_def d_lookup_def hex_distance_def)
  moreover have "input_loader11 [''NE,s,Sw''] = [''ne'', ''s'', ''sw'']" by code_simp
  ultimately show ?thesis by blast
qed

text \<open>Day 2: the examples of both parts (18, and 4 + 3 + 2 = 9). The checker only
  looks for divisors in \<open>range(2, x)\<close> among distinct values, so a row whose
  dividing pair involves 1 or two equal numbers scores 0, where the puzzle's
  quotient would be 7 and 1.\<close>

theorem checksum_examples:
  "map_sum id snd (checksum [''5 1 9 5'', ''7 5 3'', ''2 4 6 8''] spread ()) = Inr 18 \<and>
   map_sum id snd (checksum [''5 9 2 8'', ''9 4 7 3'', ''3 8 6 5''] check_line divisors_init) = Inr 9 \<and>
   map_sum id snd (check_line divisors_init [7, 1, 5]) = Inr 0 \<and> map_sum id snd (check_line divisors_init [4, 4, 3]) = Inr 0"
  by code_simp

text \<open>Day 3: the asserts of part 1, and \<open>find_bigger\<close>, which stops at the first
  value not below its input: for 747, itself a value of the spiral, it returns
  747, where the puzzle asks for the first value larger than the input (806).\<close>

theorem spiral_examples:
  "center_distance 1 = Inr 0 \<and> center_distance 12 = Inr 3 \<and> center_distance 23 = Inr 2 \<and>
   center_distance 1024 = Inr 31 \<and> center_distance 0 = Inl ZeroDivisionError \<and>
   find_bigger 747 = Some ((-1, -2), 747) \<and> find_bigger 748 = Some ((0, -2), 806)"
  by code_simp

text \<open>Day 3: the closed form of part 1 agrees with the walk of part 2 on the first
  200 squares: square \<open>k + 1\<close> sits at the \<open>k\<close>-th generated coordinate, at
  Manhattan distance \<open>center_distance (k + 1)\<close> from the centre.\<close>

theorem spiral_parts_agree:
  "map (\<lambda>c. Inr (real_of_int (\<bar>fst c\<bar> + \<bar>snd c\<bar>))) (gen_coords 200 Gen_start) =
   map (\<lambda>k. center_distance (int k + 1)) [0..<200]"
  by code_simp

text \<open>Day 19: the example map of the puzzle gives \<open>ABCDEF\<close> in 38 steps, as the
  asserts of \<open>__main__\<close> say.\<close>

theorem tubes_example:
  "(case load_path_matrix tubes_example_lines of Inr (pm, e) \<Rightarrow> traverse_matrix pm e | Inl _ \<Rightarrow> None) =
   Some (Inr (''ABCDEF'', 38))"
  unfolding tubes_example_lines_def by code_simp

text \<open>Day 7: the example of the puzzle gives the bottom program \<open>tknk\<close> and the
  correction \<open>ugml\<close> to 60, as the asserts of \<open>__main__\<close> say; its lines read as
  \<open>tower_example_xs\<close>.\<close>

theorem tower_example:
  "map_option (map_sum id troot) (tower_of_lines [] (line_reader7 tower_example_lines)) = Some (Inr ''tknk'') \<and>
   Option.bind (tower_of_lines [] (line_reader7 tower_example_lines))
     (\<lambda>r. case r of Inl e \<Rightarrow> Some (Inl e) | Inr t \<Rightarrow> weight_corrections t) = Some (Inr [(''ugml'', 60)])"
  by code_simp

theorem tower_example_parse: "line_reader7 tower_example_lines = map (Inr \<circ> line_prog) tower_example_xs"
  by (simp add: tower_example_lines_def tower_example_xs_def line_reader7_def py_strip_chars_def py_strip_def
    py_str_eval py_simps)

text \<open>Day 7: a program of weight 0 that is named on a disc before its own line keeps
  the weight \<open>None\<close> (\<open>attributes()\<close> drops falsy values), and \<open>check_total_weight\<close>
  then adds \<open>None\<close>: TypeError. With weight 3 the same tower is built.\<close>

theorem tower_weight_zero_lost:
  "tower_of_lines [] (line_reader7 [''a (1) -> b'', ''c (2) -> a'', ''b (0)'']) = Some (Inl TypeError) \<and>
   map_option (map_sum id troot) (tower_of_lines [] (line_reader7 [''a (1) -> b'', ''c (2) -> a'', ''b (3)''])) =
     Some (Inr ''c'')"
  by code_simp

text \<open>Day 7: the root-first failure on the file's own format: the bottom program on
  the first line raises UnboundLocalError.\<close>

theorem tower_root_first_lines:
  "tower_of_lines [] (line_reader7 [''tknk (41) -> ugml'', ''ugml (68)'']) = Some (Inl UnboundLocalError)"
  by code_simp

text \<open>Day 7: on a balanced tower \<open>find_imbalances\<close> returns \<open>None\<close>, and the loop of
  \<open>weight_corrections\<close> over it raises TypeError instead of returning no correction.\<close>

theorem tower_balanced_raises:
  "Option.bind (tower_of_lines [] (line_reader7 [''b (2)'', ''a (1) -> b, c'', ''c (2)'']))
     (\<lambda>r. case r of Inl e \<Rightarrow> Some (Inl e) | Inr t \<Rightarrow> find_imbalances t) = Some (Inr INone) \<and>
   Option.bind (tower_of_lines [] (line_reader7 [''b (2)'', ''a (1) -> b, c'', ''c (2)'']))
     (\<lambda>r. case r of Inl e \<Rightarrow> Some (Inl e) | Inr t \<Rightarrow> weight_corrections t) = Some (Inl TypeError)"
  by code_simp

section \<open>Witnesses\<close>

theorem duet_play_counts_sends_witness:
  "duet_play duet_example_prog = Some (Inr 3) \<and>
   (\<exists>d s0 s1 g0 g1. duet_hist duet_example_prog d s0 s1 g0 g1 \<and> all_done d \<and> 3 = length s1 \<and>
     s1 = g0 @ inbox (pl0 d) \<and> s0 = g1 @ inbox (pl1 d))"
proof -
  have run: "duet_play duet_example_prog = Some (Inr 3)"
    by (simp add: duet_example_prog_def duet_eval duet_run.simps)
  show ?thesis using run Duet_Pair.duet_play_counts_sends[OF run] by simp
qed

theorem duet_hist_conservation_witness:
  "\<exists>d s0 s1 g0 g1. duet_hist duet_example_prog d s0 s1 g0 g1 \<and> counter d = 3 \<and>
     s0 = g1 @ inbox (pl1 d) \<and> s1 = g0 @ inbox (pl0 d) \<and> counter d = length s1"
proof -
  obtain d where run: "duet_run duet_example_prog duet_init = Some (Inr d)" and c: "counter d = 3"
    using duet_example_deadlock by blast
  have nd: "\<not> all_done duet_init"
    by (simp add: all_done_def player_done_def duet_init_def player_init_def)
  have "duet_reach duet_example_prog d"
    using duet_run_reach[OF run] reach_init nd by blast
  then obtain s0 s1 g0 g1 where h: "duet_hist duet_example_prog d s0 s1 g0 g1"
    using duet_reach_hist by blast
  show ?thesis using h c Duet_Pair.duet_hist_conservation[OF h] by blast
qed

theorem duet_reach_halted_iff_witness:
  "duet_reach duet_example_prog duet_init \<and> duet_example_prog \<noteq> [] \<and>
   (finished (pl0 duet_init) \<longleftrightarrow> \<not> (0 \<le> pc (pl0 duet_init) \<and> pc (pl0 duet_init) < int (length duet_example_prog))) \<and>
   (finished (pl1 duet_init) \<longleftrightarrow> \<not> (0 \<le> pc (pl1 duet_init) \<and> pc (pl1 duet_init) < int (length duet_example_prog)))"
proof -
  have ne: "duet_example_prog \<noteq> []" by (simp add: duet_example_prog_def)
  show ?thesis using Duet_Pair.duet_reach_halted_iff[OF reach_init ne] reach_init ne by simp
qed

theorem play_instruction_finished_noop_witness:
  "finished (player_init 0\<lparr>pc := 7, finished := True\<rparr>) \<and>
   play_instruction duet_example_prog (player_init 0\<lparr>pc := 7, finished := True\<rparr>) =
     Inr (player_init 0\<lparr>pc := 7, finished := True\<rparr>, PNone)"
  using Duet_Player.play_instruction_finished_noop[of "player_init 0\<lparr>pc := 7, finished := True\<rparr>" duet_example_prog]
  by simp

theorem rcv_waits_then_completes_witness:
  "\<exists>p'. play_instruction duet_example_prog (player_init 1\<lparr>pc := 3\<rparr>) = Inr (p', PNone) \<and>
     pc p' = 3 \<and> inbox p' = [] \<and> deadlocked p' \<and> \<not> finished p' \<and>
     regs p' = regs (reg_default (Reg CHR ''a'') (player_init 1\<lparr>pc := 3\<rparr>)) \<and>
     play_instruction duet_example_prog (deliver (PInt 9) p') =
       Inr (check_finished duet_example_prog
         (p'\<lparr>regs := (regs p')(Reg CHR ''a'' \<mapsto> PInt 9), pc := 3 + 1, deadlocked := False\<rparr>), PNone)"
proof -
  have idx: "py_index duet_example_prog (pc (player_init 1\<lparr>pc := 3\<rparr>)) = Inr (Instr ''rcv'' (Reg CHR ''a'') None)"
    by (simp add: duet_example_prog_def player_init_def py_index_def)
  show ?thesis
    using Duet_Pair.rcv_waits_then_completes[OF _ _ idx, of "PInt 9"]
    by (simp add: player_init_def)
qed

theorem duet_player1_deadlock_accurate_witness:
  "\<exists>d. duet_reach duet_example_prog d \<and> duet_example_prog \<noteq> [] \<and> deadlocked (pl1 d) \<and> inbox (pl1 d) = []"
proof -
  obtain d where run: "duet_run duet_example_prog duet_init = Some (Inr d)" and dl: "deadlocked (pl1 d)"
    using duet_example_deadlock by blast
  have nd: "\<not> all_done duet_init"
    by (simp add: all_done_def player_done_def duet_init_def player_init_def)
  have reach: "duet_reach duet_example_prog d"
    using duet_run_reach[OF run] reach_init nd by blast
  have ne: "duet_example_prog \<noteq> []" by (simp add: duet_example_prog_def)
  show ?thesis
    using reach ne dl Duet_Pair.duet_player1_deadlock_accurate[OF reach ne dl] by blast
qed

theorem music_terminates_without_jgz_witness:
  "\<exists>r. play_instructions [Instr ''set'' (Reg CHR ''a'') (Some (Imm 3)), Instr ''snd'' (Reg CHR ''a'') None] = Some r"
  using Duet_Sound.music_terminates_without_jgz[of "[Instr ''set'' (Reg CHR ''a'') (Some (Imm 3)), Instr ''snd'' (Reg CHR ''a'') None]"]
  by simp

theorem escape_time_terminates_witness:
  "keeps_nonneg update_rules2 \<and> \<not> ([0, 3, 0, 1] :: int list) = [] \<and>
   (\<exists>n ys. escape_time update_rules2 [0, 3, 0, 1] = Some (Inr (n, ys)))"
  using Maze.escape_time_terminates[of update_rules2 "[0, 3, 0, 1]"] keeps_nonneg_rules(2) by simp


theorem escape_time_resets_witness: "escape_time_m update_rules2 (maze_init [0, 3, 0, 1, -3]) =
    Some (Inr ((10, [2, 3, 2, 3, -1]), maze_init [0, 3, 0, 1, -3]))"
proof -
  obtain m where r: "escape_time_m update_rules2 (maze_init [0, 3, 0, 1, -3]) = Some (Inr ((10, [2, 3, 2, 3, -1]), m))"
    by (simp add: maze_eval escape_loop.simps)
  show ?thesis using Maze.escape_time_resets[OF r] r by simp
qed
theorem evaluate_instructions_correct_witness:
  "\<exists>instrs ss. parse_reg_lines reg_example_lines = Inr instrs \<and> reg_trace reg_init instrs = Inr ss \<and>
     evaluate_instructions instrs = Inr (Max (spec_regs instrs ` mentioned instrs), Max (insert 0 (held ss)))"
proof -
  obtain instrs where p: "parse_reg_lines reg_example_lines = Inr instrs"
    and v: "\<forall>i \<in> set instrs. valid_cond (condition i)" and ne: "instrs \<noteq> []"
    by (simp add: reg_example_lines_def reg_eval valid_cond_def)
  show ?thesis using p Registers.evaluate_instructions_correct[OF v ne] by blast
qed

theorem reg_loop_refines_spec_witness:
  "\<exists>instrs st. parse_reg_lines reg_example_lines = Inr instrs \<and> reg_loop reg_init instrs = Inr st \<and>
     distinct (map fst (reg_values st)) \<and>
     map_of (reg_values st) = (\<lambda>k. if k \<in> mentioned instrs then Some (spec_regs instrs k) else None)"
proof -
  obtain instrs where p: "parse_reg_lines reg_example_lines = Inr instrs"
    and v: "\<forall>i \<in> set instrs. valid_cond (condition i)"
    by (simp add: reg_example_lines_def reg_eval valid_cond_def)
  show ?thesis using p Registers.reg_loop_refines_spec[OF v] by blast
qed

theorem evaluate_instructions_syntax_error_witness:
  "evaluate_instructions [\<lparr>register = ''b'', action = Inc, action_amt = 5, cond_register = ''a'', condition = ''>'', cond_amt = 1\<rparr>,
     \<lparr>register = ''a'', action = Inc, action_amt = 1, cond_register = ''b'', condition = ''unless'', cond_amt = 0\<rparr>] = Inl SyntaxError"
  using Registers.evaluate_instructions_syntax_error[of
    "[\<lparr>register = ''b'', action = Inc, action_amt = 5, cond_register = ''a'', condition = ''>'', cond_amt = 1\<rparr>]"
    "\<lparr>register = ''a'', action = Inc, action_amt = 1, cond_register = ''b'', condition = ''unless'', cond_amt = 0\<rparr>" "[]"]
  by (simp add: valid_cond_def is_name_char_def is_digit_def)

theorem evaluate_lines_parsed_witness:
  "\<exists>instrs. parse_reg_lines reg_example_lines = Inr instrs \<and>
     evaluate_lines reg_example_lines = evaluate_instructions instrs"
proof -
  obtain instrs where p: "parse_reg_lines reg_example_lines = Inr instrs"
    by (simp add: reg_example_lines_def reg_eval)
  show ?thesis using p Registers.evaluate_lines_parsed[OF p] by blast
qed

theorem circle_hash_refines_spec_witness:
  "circle_hash (map int [3, 4, 1]) (int 5) = Inr (spec_hash [3, 4, 1] 5)"
  using KnotHash.circle_hash_refines_spec[of "[3, 4, 1]" 5] by simp

theorem knot_full_length_noop_witness:
  "knot_ok 5 (knot_init 5) \<and> (\<exists>k'. knot_step 5 (knot_init 5) 5 = Inr k' \<and> circle k' = circle (knot_init 5))"
proof -
  have ok: "knot_ok 5 (knot_init 5)" by code_simp
  show ?thesis using ok KnotHash.knot_full_length_noop[OF ok] by blast
qed

theorem convert_to_hex_roundtrip_witness:
  "\<exists>h. convert_to_hex 171 = Inr h \<and> length h = 2 \<and> set h \<subseteq> set ''0123456789abcdef'' \<and>
     int (hex_value h) = 171"
  using KnotHash.convert_to_hex_roundtrip[of 171] by simp

theorem region_counter_terminates_witness:
  "\<exists>n. region_counter [''110'', ''001'', ''101''] = Some (Inr n) \<and> 0 \<le> n \<and>
     n \<le> int (card (used_squares [''110'', ''001'', ''101'']))"
proof -
  have "grid_ok [''110'', ''001'', ''101'']" by (simp add: grid_ok_def)
  then show ?thesis by (rule Disk.region_counter_terminates)
qed

theorem get_packet_trip_severity_refines_witness:
  "(\<exists>fw. firewall_init fw_example_params = Inr fw \<and>
     get_packet_trip_severity (packet_init fw 0) = Some (Inr (spec_severity fw_example_params))) \<and>
   spec_severity fw_example_params = 24"
proof -
  have h: "fw_example_params \<noteq> []" "distinct (map fst fw_example_params)"
    "\<forall>(d, r) \<in> set fw_example_params. 0 \<le> d \<and> 2 \<le> r"
    by (simp_all add: fw_example_params_def)
  have "spec_severity fw_example_params = 24" by (simp add: fw_example_params_def spec_severity_def)
  then show ?thesis using Firewall.get_packet_trip_severity_refines[OF h] by blast
qed

theorem find_shortest_wait_least_witness:
  "\<not> caught (filter (\<lambda>(d, r). 0 < d) fw_example_params) 4 \<and>
   (\<exists>fw. firewall_init fw_example_params = Inr fw \<and> find_shortest_wait (packet_init fw 0) = Some (Inr 4))"
proof -
  have h: "fw_example_params \<noteq> []" "distinct (map fst fw_example_params)"
    "\<forall>(d, r) \<in> set fw_example_params. 0 \<le> d \<and> 2 \<le> r"
    "\<not> caught (filter (\<lambda>(d, r). 0 < d) fw_example_params) (int 4)"
    by (simp_all add: fw_example_params_def caught_def scanner_top.simps)
  from Firewall.find_shortest_wait_least[OF h] obtain fw w where
    fw: "firewall_init fw_example_params = Inr fw" "find_shortest_wait (packet_init fw 0) = Some (Inr w)"
    "\<not> caught (filter (\<lambda>(d, r). 0 < d) fw_example_params) (int w)"
    "\<forall>v < w. caught (filter (\<lambda>(d, r). 0 < d) fw_example_params) (int v)"
    by blast
  have "w \<le> 4" using fw(4) h(4) by (metis not_le)
  then have "w \<in> {0, 1, 2, 3, 4}" by auto
  then have "w = 4" using fw(3) by (auto simp: fw_example_params_def caught_def scanner_top.simps)
  then show ?thesis using fw(1,2) h(4) by auto
qed

theorem get_wait_time_least_witness:
  "\<exists>w. get_wait_time fw_example_params = Some (Inr w) \<and> 0 \<le> w \<and> w \<le> 10 \<and> \<not> caught fw_example_params w"
proof -
  have h: "\<forall>(l, width) \<in> set fw_example_params. 2 \<le> width" "0 \<le> (10 :: int)" "\<not> caught fw_example_params 10"
    by (simp_all add: fw_example_params_def caught_def scanner_top.simps)
  show ?thesis using Firewall.get_wait_time_least[OF h] by blast
qed

theorem activity_burst_refines_witness:
  "\<exists>v'. activity_burst 7 (sporifica_init [([1, 1], CHR ''I''), ([-1, 0], CHR ''I'')]) = Inr v' \<and>
     virus_ok v' \<and> activity_bursts v' = 7"
proof -
  have "virus_ok (sporifica_init [([1, 1], CHR ''I''), ([-1, 0], CHR ''I'')])"
    by (simp add: virus_ok_def virus_eval dvec_def heading_of_def states_of_def)
  from Virus.activity_burst_refines[OF this, of 7] show ?thesis by (auto simp: virus_eval)
qed

theorem loaded_virus_never_raises_witness:
  "\<exists>d. load_infection_states virus_test_lines = Inr d \<and>
     (\<exists>v. activity_burst 10000 (sporifica_init d) = Inr v) \<and> (\<exists>v. activity_burst 10000000 (super_init d) = Inr v)"
proof -
  have l: "load_infection_states virus_test_lines = Inr [([1, 1], CHR ''I''), ([-1, 0], CHR ''I'')]"
    by (simp add: load_infection_states_def virus_test_lines_def hash_cells_def py_strip_def is_py_space_def)
  show ?thesis using Virus.loaded_virus_never_raises[OF l, of 10000] Virus.loaded_virus_never_raises[OF l, of 10000000] l
    by blast
qed

theorem repeated_dance_cycle_witness:
  "repeated_dance ''abcde'' dance_example_moves 10 = Inr ''ceadb''"
proof -
  have h: "dance_pow 4 dance_example_moves ''abcde'' = Inr ''abcde''"
    "distinct (map (\<lambda>k. dance_pow k dance_example_moves ''abcde'') [0..<4])"
    unfolding dance_example_moves_def by code_simp+
  have "dance_pow 10 dance_example_moves ''abcde'' = Inr ''ceadb''"
    unfolding dance_example_moves_def by code_simp
  then show ?thesis using Dance.repeated_dance_cycle[OF h(1) _ h(2), of 10] by simp
qed

theorem traverse_matrix_no_error_witness:
  "\<exists>pm e. load_path_matrix tubes_example_lines = Inr (pm, e) \<and>
     traverse_matrix pm e = Some (Inr (''ABCDEF'', 38))"
proof -
  obtain pm e where l: "load_path_matrix tubes_example_lines = Inr (pm, e)" and
    t: "traverse_matrix pm e = Some (Inr (''ABCDEF'', 38))"
    using tubes_example by (auto split: sum.splits)
  from Tubes.traverse_matrix_no_error[OF l t] have "set ''ABCDEF'' \<subseteq> set ''ABCDEFGHIJKLMNOPQRSTUVWXYZ''" by simp
  then show ?thesis using l t by blast
qed


theorem tower_init_correct_witness:
  "\<exists>t p w cs ts. tower_init (map line_prog tower_example_xs) = Some (Inr t) \<and>
    troot t \<notin> line_conns (set tower_example_xs) \<and> (troot t, w, cs) \<in> set tower_example_xs \<and>
    map_of (tstructure t) (troot t) = Some p \<and> list_all2 (tower_weight tower_example_xs) cs ts \<and>
    weight_above p = Some (sum_list ts) \<and> total_weight p = Some (w + sum_list ts) \<and>
    is_balanced p = Some (\<forall>a \<in> set ts. \<forall>b \<in> set ts. a = b)"
proof -
  have d: "distinct (map fst tower_example_xs)" by (simp add: tower_example_xs_def)
  have l: "\<forall>(n, w, cs) \<in> set tower_example_xs. w \<noteq> 0 \<and> set cs \<subseteq> fst ` set tower_example_xs \<and>
      (\<forall>c \<in> set cs. tower_example_rank c < tower_example_rank n)"
    by (simp add: tower_example_xs_def tower_example_rank_def)
  have ne: "tower_example_xs \<noteq> []" by (simp add: tower_example_xs_def)
  have f: "fst (hd tower_example_xs) \<in> line_conns (set tower_example_xs)"
    by (simp add: tower_example_xs_def line_conns_def)
  show ?thesis using Tower.tower_init_correct[OF d l ne f] .
qed

theorem tower_init_root_first_witness:
  "tower_init (map line_prog [(''tknk'', 41, [''ugml'']), (''ugml'', 68, [])]) = Some (Inl UnboundLocalError)"
  by (rule Tower.tower_init_root_first) (simp_all add: line_conns_def)

section \<open>Day 20\<close>

text \<open>The puzzle's first example: the lines parse, and part 1 answers with an empty
  list (so \<open>[0]\<close> raises \<open>IndexError\<close> in \<open>__main__\<close>) where the puzzle says
  particle 0: index 0 is never recorded.\<close>

theorem particle_example1_part1:
  "load_particles [''p=<3,0,0>, v=<2,0,0>, a=<-1,0,0>'', ''p=<4,0,0>, v=<0,0,0>, a=<-2,0,0>''] = Inr particle_example1 \<and>
   get_closest_to_origin particle_example1 = Some (Inr [])"
  by code_simp

text \<open>Two later particles of equal least acceleration: the second has the larger
  velocity, yet both are returned; with equal velocities the loop never ends.\<close>

theorem get_closest_to_origin_eq_witness:
  "get_closest_to_origin [particle_init [0, 0, 0] [0, 0, 0] [1, 0, 0], particle_init [0, 0, 0] [1, 0, 0] [1, 0, 0],
     particle_init [0, 0, 0] [2, 0, 0] [1, 0, 0]] = Some (Inr [1, 2]) \<and>
   get_closest_to_origin [particle_init [0, 0, 0] [0, 0, 0] [1, 0, 0], particle_init [0, 0, 0] [1, 0, 0] [1, 0, 0],
     particle_init [0, 0, 0] [1, 0, 0] [1, 0, 0]] = None"
  by (simp add: Particles.get_closest_to_origin_eq particle_init_def abs_acceleration_def abs_velocity_def)

lemma traj_line: "traj (particle_init [p, 0, 0] [v, 0, 0] [0, 0, 0]) t = [p + v * t, 0, 0]"
  by (simp add: traj_def particle_init_def upt_conv_Cons)

lemma collide_line:
  "collide (particle_init [p1, 0, 0] [v1, 0, 0] [0, 0, 0]) (particle_init [p2, 0, 0] [v2, 0, 0] [0, 0, 0]) t \<longleftrightarrow>
   0 \<le> t \<and> p1 + v1 * t = p2 + v2 * t"
  by (simp add: collide_def traj_line)

lemma pairs4: "i < j \<Longrightarrow> j < (4::nat) \<Longrightarrow> (i, j) \<in> {(0, 1), (0, 2), (0, 3), (1, 2), (1, 3), (2, 3)}"
  by auto

theorem gpi_with_refines_witness:
  "gpi_with (ix_upto 10) particle_example2 = Inr (spec_surv particle_example2 {0..<length particle_example2} [0..10]) \<and>
   spec_surv particle_example2 {0..<length particle_example2} [0..10] = {3}"
proof -
  have h: "\<forall>i j t. i < j \<and> j < length particle_example2 \<and> collide (particle_example2 ! i) (particle_example2 ! j) t \<longrightarrow> t \<le> 10"
  proof (intro allI impI)
    fix i j t assume a: "i < j \<and> j < length particle_example2 \<and> collide (particle_example2 ! i) (particle_example2 ! j) t"
    then have "(i, j) \<in> {(0, 1), (0, 2), (0, 3), (1, 2), (1, 3), (2, 3)}" using pairs4 by (simp add: particle_example2_def)
    then show "t \<le> 10" using a by (auto simp: particle_example2_def collide_line)
  qed
  have e: "\<forall>i j. i < j \<and> j < length particle_example2 \<longrightarrow>
      (\<exists>ts. ix_upto 10 (particle_example2 ! i) (particle_example2 ! j) = Inr ts \<and>
        set ts = {t. collide (particle_example2 ! i) (particle_example2 ! j) t})"
  proof (intro allI impI)
    fix i j assume "i < j \<and> j < length particle_example2"
    then show "\<exists>ts. ix_upto 10 (particle_example2 ! i) (particle_example2 ! j) = Inr ts \<and>
        set ts = {t. collide (particle_example2 ! i) (particle_example2 ! j) t}"
      using h by (intro ix_upto_exact) blast
  qed
  have "spec_surv particle_example2 {0..<length particle_example2} [0..10] = {3}" by code_simp
  then show ?thesis using Particles.gpi_with_refines[OF e h] by simp
qed

theorem intersects_shared_axis_witness:
  "intersects (particle_example2 ! 0) (particle_example2 ! 3) = Inr []"
proof -
  have ok: "particle_ok (particle_example2 ! 0)" "particle_ok (particle_example2 ! 3)"
    by (simp_all add: particle_example2_def particle_ok_def particle_init_def)
  obtain ts where ts: "intersects (particle_example2 ! 0) (particle_example2 ! 3) = Inr ts"
    using intersects_total[OF ok] by blast
  have "ts = []"
    by (rule Particles.intersects_shared_axis[OF ts, of 1]) (simp_all add: particle_example2_def particle_init_def)
  then show ?thesis using ts by simp
qed

theorem coaxial_particles_all_survive_witness: "get_particle_intersections particle_example2 = Inr {0..<4}"
proof -
  have h1: "\<forall>p \<in> set particle_example2. particle_ok p"
    by (simp add: particle_example2_def particle_ok_def particle_init_def)
  have h2: "\<forall>p \<in> set particle_example2. \<forall>q \<in> set particle_example2.
      position p ! 1 = position q ! 1 \<and> velocity p ! 1 = velocity q ! 1 \<and> acceleration p ! 1 = acceleration q ! 1"
    by (simp add: particle_example2_def particle_init_def)
  have l: "length particle_example2 = 4" by (simp add: particle_example2_def)
  show ?thesis using Particles.coaxial_particles_all_survive[OF h1 _ h2] l by simp
qed

end
